theory Spec2Isabelle
  imports Complex_Main
begin

section \<open>Continuous-filter convolution (pack/nn/cfconv.py)\<close>

text \<open>
  The layer \<open>CFConv\<close> is a composition of tensor operations of the host library
  (slicing, \<open>view\<close>, \<open>expand\<close>, \<open>gather\<close>, broadcasting arithmetic) and of two
  sibling modules, \<open>Dense\<close> and \<open>Aggregate\<close>.  A tensor is modelled by value: its
  shape and its entries in row-major order, which is the order \<open>view\<close> preserves.
  Entries of floating-point tensors are modelled as real numbers (rounding, NaN and
  infinities are outside the model); index tensors hold integers.  Every exception the
  operations raise is a value of type \<open>error\<close>.
\<close>

subsection \<open>Tensors\<close>

datatype error =
    IndexError        \<comment> \<open>Python IndexError: a dimension that the tensor does not have\<close>
  | DimMismatch       \<comment> \<open>RuntimeError: sizes that do not match or broadcast\<close>
  | InvalidView       \<comment> \<open>RuntimeError: a shape that \<open>view\<close> cannot give\<close>
  | IndexOutOfRange   \<comment> \<open>RuntimeError: \<open>gather\<close> index out of bounds\<close>
  | NetworkFailure    \<comment> \<open>any exception raised inside an externally supplied network\<close>

record 'a tensor =
  shape :: "nat list"
  elems :: "'a list"

definition wf :: "'a tensor \<Rightarrow> bool" where
  "wf t \<longleftrightarrow> length (elems t) = prod_list (shape t)"

text \<open>Row-major position of a multi-index, and the multi-index of a position.\<close>

fun ravel :: "nat list \<Rightarrow> nat list \<Rightarrow> nat" where
  "ravel (d # ds) (i # is) = i * prod_list ds + ravel ds is"
| "ravel _ _ = 0"

fun unravel :: "nat list \<Rightarrow> nat \<Rightarrow> nat list" where
  "unravel [] p = []"
| "unravel (d # ds) p = p div prod_list ds # unravel ds (p mod prod_list ds)"

definition inb :: "nat list \<Rightarrow> nat list \<Rightarrow> bool" where
  "inb s idx \<longleftrightarrow> list_all2 (<) idx s"

definition entry :: "'a tensor \<Rightarrow> nat list \<Rightarrow> 'a" where
  "entry t idx = elems t ! ravel (shape t) idx"

text \<open>The tensor of shape \<open>s\<close> whose entry at \<open>idx\<close> is \<open>g idx\<close>.\<close>

definition mk :: "nat list \<Rightarrow> (nat list \<Rightarrow> 'a) \<Rightarrow> 'a tensor" where
  "mk s g = \<lparr>shape = s, elems = map (\<lambda>p. g (unravel s p)) [0..<prod_list s]\<rparr>"

definition bind_err :: "error + 'a \<Rightarrow> ('a \<Rightarrow> error + 'b) \<Rightarrow> error + 'b" where
  "bind_err r f = (case r of Inl e \<Rightarrow> Inl e | Inr v \<Rightarrow> f v)"

subsection \<open>The tensor operations that \<open>forward\<close> calls\<close>

text \<open>\<open>t.size(d)\<close> and \<open>t.shape[d]\<close> for \<open>d \<ge> 0\<close>.\<close>

definition dim_size :: "'a tensor \<Rightarrow> nat \<Rightarrow> error + nat" where
  "dim_size t d = (if d < length (shape t) then Inr (shape t ! d) else Inl IndexError)"

text \<open>The stop position of the Python slice \<open>:cut\<close> on an axis of length \<open>n\<close>:
  a negative bound counts from the end, and the bound is clamped to the axis.\<close>

definition py_stop :: "int \<Rightarrow> nat \<Rightarrow> nat" where
  "py_stop cutn n = (if cutn < 0 then nat (max 0 (int n + cutn)) else min (nat cutn) n)"

text \<open>\<open>t[:, :cut]\<close>: the first rows along axis 1.\<close>

definition slice_atoms :: "int \<Rightarrow> 'a tensor \<Rightarrow> error + 'a tensor" where
  "slice_atoms cutn t =
     (case shape t of
        b # n # rest \<Rightarrow> Inr (mk (b # py_stop cutn n # rest) (entry t))
      | _ \<Rightarrow> Inl IndexError)"

text \<open>\<open>t.unsqueeze(-1)\<close>: a trailing axis of length 1.\<close>

definition unsqueeze_last :: "'a tensor \<Rightarrow> 'a tensor" where
  "unsqueeze_last t = t\<lparr>shape := shape t @ [1]\<rparr>"

text \<open>\<open>t.view(*sizes)\<close>, where one size may be \<open>-1\<close> and is then inferred.  A tensor
  without entries cannot be viewed with an inferred size when the other sizes multiply
  to 0: the library refuses it as ambiguous.  (Tensors are values here, so the refusal
  of \<open>view\<close> on incompatible strides is not modelled; it cannot occur for the
  three-axis slices \<open>forward\<close> views, whose axes 1 and 2 stay adjacent in memory.)\<close>

definition infer_size :: "int list \<Rightarrow> nat \<Rightarrow> error + nat list" where
  "infer_size sizes n =
     (if list_ex (\<lambda>d. d < -1) sizes \<or> 1 < length (filter (\<lambda>d. d = -1) sizes)
      then Inl InvalidView
      else let newsize = prod_list (map nat (filter (\<lambda>d. d \<noteq> -1) sizes));
               infer = list_ex (\<lambda>d. d = -1) sizes
           in if n = newsize \<or> (infer \<and> 0 < newsize \<and> n mod newsize = 0)
              then (if infer
                    then (if newsize = 0 then Inl InvalidView
                          else Inr (map (\<lambda>d. if d = -1 then n div newsize else nat d) sizes))
                    else Inr (map nat sizes))
              else Inl InvalidView)"

definition view :: "int list \<Rightarrow> 'a tensor \<Rightarrow> error + 'a tensor" where
  "view sizes t =
     (case infer_size sizes (prod_list (shape t)) of
        Inl e \<Rightarrow> Inl e
      | Inr s \<Rightarrow> Inr (t\<lparr>shape := s\<rparr>))"

text \<open>\<open>t.expand(*sizes)\<close> with as many sizes as \<open>t\<close> has axes: \<open>-1\<close> keeps an axis,
  an axis of length 1 is repeated.\<close>

definition expand :: "int list \<Rightarrow> 'a tensor \<Rightarrow> error + 'a tensor" where
  "expand sizes t =
     (if length sizes \<noteq> length (shape t) then Inl DimMismatch
      else if list_all2 (\<lambda>e d. e = -1 \<or> e = int d \<or> (d = 1 \<and> 0 \<le> e)) sizes (shape t)
      then Inr (mk (map2 (\<lambda>e d. if e = -1 then d else nat e) sizes (shape t))
                  (\<lambda>idx. entry t (map2 (\<lambda>d i. if d = 1 then 0 else i) (shape t) idx)))
      else Inl DimMismatch)"

text \<open>\<open>torch.gather(inp, 1, index)\<close>: the result has the shape of \<open>index\<close>, and its
  entry at \<open>idx\<close> is the entry of \<open>inp\<close> at \<open>idx\<close> with position 1 replaced by
  \<open>index[idx]\<close>.  An index outside \<open>[0, inp.size(1))\<close> raises.\<close>

definition gather1 :: "'a tensor \<Rightarrow> int tensor \<Rightarrow> error + 'a tensor" where
  "gather1 inp index =
     (if length (shape inp) < 2 then Inl IndexError
      else if length (shape index) \<noteq> length (shape inp) then Inl DimMismatch
      else if \<not> list_all (\<lambda>d. d = 1 \<or> shape index ! d \<le> shape inp ! d)
                  [0..<length (shape inp)]
      then Inl DimMismatch
      else if \<not> list_all (\<lambda>j. 0 \<le> j \<and> j < int (shape inp ! 1)) (elems index)
      then Inl IndexOutOfRange
      else Inr (mk (shape index) (\<lambda>idx. entry inp (idx[1 := nat (entry index idx)]))))"

text \<open>Broadcasting: shapes are aligned at their last axes; two lengths are compatible
  when they are equal or one of them is 1.\<close>

fun broadcast_rev :: "nat list \<Rightarrow> nat list \<Rightarrow> nat list option" where
  "broadcast_rev [] ys = Some ys"
| "broadcast_rev xs [] = Some xs"
| "broadcast_rev (x # xs) (y # ys) =
     (if x = y \<or> y = 1 then map_option ((#) x) (broadcast_rev xs ys)
      else if x = 1 then map_option ((#) y) (broadcast_rev xs ys)
      else None)"

definition broadcast_shape :: "nat list \<Rightarrow> nat list \<Rightarrow> nat list option" where
  "broadcast_shape s1 s2 = map_option rev (broadcast_rev (rev s1) (rev s2))"

definition bidx :: "nat list \<Rightarrow> nat list \<Rightarrow> nat list" where
  "bidx s idx = map2 (\<lambda>d i. if d = 1 then 0 else i) s (drop (length idx - length s) idx)"

definition binop :: "('a \<Rightarrow> 'b \<Rightarrow> 'c) \<Rightarrow> 'a tensor \<Rightarrow> 'b tensor \<Rightarrow> error + 'c tensor" where
  "binop f a b =
     (case broadcast_shape (shape a) (shape b) of
        None \<Rightarrow> Inl DimMismatch
      | Some s \<Rightarrow> Inr (mk s (\<lambda>idx. f (entry a (bidx (shape a) idx))
                                      (entry b (bidx (shape b) idx)))))"

text \<open>\<open>torch.sum(t, axis)\<close> for an axis the tensor has.\<close>

definition norm_axis :: "int \<Rightarrow> nat \<Rightarrow> error + nat" where
  "norm_axis a rank =
     (if 0 \<le> a \<and> a < int rank then Inr (nat a)
      else if - int rank \<le> a \<and> a < 0 then Inr (nat (a + int rank))
      else Inl IndexError)"

definition sum_axis :: "nat \<Rightarrow> real tensor \<Rightarrow> real tensor" where
  "sum_axis a t =
     mk (take a (shape t) @ drop (Suc a) (shape t))
        (\<lambda>idx. sum_list (map (\<lambda>k. entry t (take a idx @ k # drop a idx)) [0..<shape t ! a]))"

subsection \<open>The sibling modules \<open>Dense\<close> and \<open>Aggregate\<close>\<close>

text \<open>Modelled from the spec: the module \<open>pack.nn.Dense\<close>, which \<open>cfconv.py\<close> imports
  and whose source is not part of the files at hand.  The spec describes it as a linear
  map on the last axis (sections 4.1 and 4.7): for the input projection without bias
  and without activation, for the output projection with bias and an optional
  nonlinearity "applied after the linear transform".  The nonlinearity is taken
  entrywise.  An input whose last axis is not \<open>in_features\<close> long is refused.\<close>

record dense =
  in_features :: nat
  out_features :: nat
  weight :: "real tensor"
  bias :: "real tensor option"
  activation :: "(real \<Rightarrow> real) option"

definition dense_entry :: "dense \<Rightarrow> real tensor \<Rightarrow> nat list \<Rightarrow> nat \<Rightarrow> real" where
  "dense_entry D t lead oc =
     (let lin = sum_list (map (\<lambda>j. entry t (lead @ [j]) * entry (weight D) [oc, j])
                            [0..<in_features D]);
          z = (case bias D of None \<Rightarrow> lin | Some b \<Rightarrow> lin + entry b [oc])
      in (case activation D of None \<Rightarrow> z | Some act \<Rightarrow> act z))"

definition dense_forward :: "dense \<Rightarrow> real tensor \<Rightarrow> error + real tensor" where
  "dense_forward D t =
     (if shape t = [] \<or> last (shape t) \<noteq> in_features D then Inl DimMismatch
      else Inr (mk (butlast (shape t) @ [out_features D])
                  (\<lambda>idx. dense_entry D t (butlast idx) (last idx))))"

text \<open>Modelled from the spec: the module \<open>pack.nn.base.Aggregate\<close>, imported by
  \<open>cfconv.py\<close> and absent from the files at hand.  Section 4.6: the mask is
  "multiplied in before aggregation" (with a trailing axis of length 1, so that it
  broadcasts over the features), the result is summed over the configured axis, and in
  mean mode the sum is "divided by the count of non-zero mask entries per atom, with a
  numerical floor to avoid division by zero".  The floor is 1, and the count keeps the
  reduced axis with length 1, so that it broadcasts over the features as well.\<close>

record aggregate =
  axis :: int
  mean :: bool

definition neighbor_count :: "nat \<Rightarrow> real tensor \<Rightarrow> real tensor" where
  "neighbor_count a m =
     mk ((shape m)[a := 1])
        (\<lambda>idx. max 1 (real (length (filter (\<lambda>k. entry m (idx[a := k]) \<noteq> 0)
                                            [0..<shape m ! a]))))"

definition aggregate_forward :: "aggregate \<Rightarrow> real tensor \<Rightarrow> real tensor \<Rightarrow> error + real tensor" where
  "aggregate_forward A inp msk =
     bind_err (binop (*) inp (unsqueeze_last msk)) (\<lambda>masked.
     bind_err (norm_axis (axis A) (length (shape masked))) (\<lambda>a.
       if mean A
       then bind_err (norm_axis (axis A) (length (shape msk))) (\<lambda>am.
              binop (/) (sum_axis a masked) (neighbor_count am msk))
       else Inr (sum_axis a masked)))"

subsection \<open>The layer\<close>

type_synonym network = "real tensor \<Rightarrow> error + real tensor"

record cfconv =
  in2f :: dense
  f2out :: dense
  filter_network :: network
  cutoff_network :: "network option"
  agg :: aggregate

text \<open>\<open>CFConv.__init__\<close> (lines 27-34).  The initial weights, which the library draws at
  random, are arguments.\<close>

definition CFConv ::
  "nat \<Rightarrow> nat \<Rightarrow> nat \<Rightarrow> network \<Rightarrow> network option \<Rightarrow> (real \<Rightarrow> real) option \<Rightarrow> bool \<Rightarrow> int
     \<Rightarrow> real tensor \<Rightarrow> real tensor \<Rightarrow> real tensor \<Rightarrow> cfconv" where
  "CFConv n_in n_filters n_out fnet cnet act normalize_filter ax w_in w_out b_out =
     \<lparr>in2f = \<lparr>in_features = n_in, out_features = n_filters, weight = w_in,
               bias = None, activation = None\<rparr>,
      f2out = \<lparr>in_features = n_filters, out_features = n_out, weight = w_out,
                bias = Some b_out, activation = act\<rparr>,
      filter_network = fnet,
      cutoff_network = cnet,
      agg = \<lparr>axis = ax, mean = normalize_filter\<rparr>\<rparr>"

text \<open>Lines 57-62: the filter of the first \<open>cut\<close> atoms, scaled by the cutoff when the
  layer has one.\<close>

definition filter_weights :: "cfconv \<Rightarrow> real tensor \<Rightarrow> real tensor \<Rightarrow> int \<Rightarrow> error + real tensor" where
  "filter_weights L r_ij f_ij cutn =
     bind_err (slice_atoms cutn f_ij) (\<lambda>fs.
     bind_err (filter_network L fs) (\<lambda>W.
       case cutoff_network L of
         None \<Rightarrow> Inr W
       | Some cnet \<Rightarrow>
           bind_err (slice_atoms cutn r_ij) (\<lambda>rs.
           bind_err (cnet rs) (\<lambda>C.
           binop (*) W (unsqueeze_last C)))))"

text \<open>Lines 67-72: the projected features \<open>y\<close> of the neighbours of the first \<open>cut\<close>
  atoms.\<close>

definition neighbor_gather :: "real tensor \<Rightarrow> int tensor \<Rightarrow> int \<Rightarrow> error + real tensor" where
  "neighbor_gather y neighbors cutn =
     bind_err (slice_atoms cutn neighbors) (\<lambda>ns.
     bind_err (dim_size ns 1) (\<lambda>n1.
     bind_err (dim_size ns 2) (\<lambda>n2.
     bind_err (view [-1, int (n1 * n2), 1] ns) (\<lambda>nbh.
     bind_err (dim_size y 2) (\<lambda>nf.
     bind_err (expand [-1, -1, int nf] nbh) (\<lambda>nbh.
     bind_err (gather1 y nbh) (\<lambda>g.
     bind_err (dim_size ns 0) (\<lambda>n0.
     view [int n0, int n1, int n2, -1] g))))))))"

text \<open>Lines 51-52: the truncation length in use; without \<open>cut\<close> it is \<open>x.shape[1]\<close>.\<close>

definition cut_value :: "real tensor \<Rightarrow> int option \<Rightarrow> error + int" where
  "cut_value x cutn =
     (case cutn of None \<Rightarrow> bind_err (dim_size x 1) (\<lambda>n. Inr (int n)) | Some c \<Rightarrow> Inr c)"

text \<open>Lines 54-55: the distance features in use; without \<open>f_ij\<close> they are
  \<open>r_ij.unsqueeze(-1)\<close>.\<close>

definition features :: "real tensor \<Rightarrow> real tensor option \<Rightarrow> real tensor" where
  "features r_ij f_ij = (case f_ij of None \<Rightarrow> unsqueeze_last r_ij | Some f \<Rightarrow> f)"

text \<open>Lines 64-79: the convolution with the filter \<open>W\<close>, by the modules \<open>in2f\<close>, \<open>f2out\<close> and
  \<open>agg\<close> of the layer.\<close>

definition convolve ::
  "dense \<Rightarrow> dense \<Rightarrow> aggregate \<Rightarrow> real tensor \<Rightarrow> int tensor \<Rightarrow> real tensor \<Rightarrow> int \<Rightarrow> real tensor
     \<Rightarrow> error + real tensor" where
  "convolve in2f_L f2out_L agg_L x neighbors pairwise_mask cutn W =
     bind_err (dense_forward in2f_L x) (\<lambda>y.
     bind_err (neighbor_gather y neighbors cutn) (\<lambda>y.
     bind_err (slice_atoms cutn y) (\<lambda>ys.
     bind_err (slice_atoms cutn W) (\<lambda>Ws.
     bind_err (binop (*) ys Ws) (\<lambda>y.
     bind_err (slice_atoms cutn pairwise_mask) (\<lambda>ms.
     bind_err (aggregate_forward agg_L y ms) (\<lambda>y.
     dense_forward f2out_L y)))))))"

text \<open>\<open>CFConv.forward\<close> (lines 36-79), for networks that are functions of their argument.\<close>

definition forward ::
  "cfconv \<Rightarrow> real tensor \<Rightarrow> real tensor \<Rightarrow> int tensor \<Rightarrow> real tensor \<Rightarrow> real tensor option
     \<Rightarrow> int option \<Rightarrow> error + real tensor" where
  "forward L x r_ij neighbors pairwise_mask f_ij cutn =
     bind_err (cut_value x cutn) (\<lambda>cutn.
     bind_err (filter_weights L r_ij (features r_ij f_ij) cutn) (\<lambda>W.
     convolve (in2f L) (f2out L) (agg L) x neighbors pairwise_mask cutn W))"

subsection \<open>The layer with networks that have a state\<close>







subsection \<open>Valid layers and inputs\<close>

text \<open>The contract of the externally supplied networks (spec, sections 4.2 and 4.3), at the
  tensor a network is given: the filter network returns filters of the shape of the
  distance features with the last axis replaced by \<open>n_filters\<close>, the cutoff network one
  scalar per pair.  The networks of a layer are in order for a call when they keep their
  contract on the slices that call passes them.\<close>

definition filter_contract_at :: "network \<Rightarrow> nat \<Rightarrow> real tensor \<Rightarrow> bool" where
  "filter_contract_at net F fs \<longleftrightarrow>
     (\<exists>W. net fs = Inr W \<and> wf W \<and> shape W = butlast (shape fs) @ [F])"

definition cutoff_contract_at :: "network \<Rightarrow> real tensor \<Rightarrow> bool" where
  "cutoff_contract_at net rs \<longleftrightarrow> (\<exists>C. net rs = Inr C \<and> wf C \<and> shape C = shape rs)"

definition networks_ok :: "cfconv \<Rightarrow> nat \<Rightarrow> real tensor \<Rightarrow> real tensor option \<Rightarrow> int \<Rightarrow> bool" where
  "networks_ok L F r_ij f_ij cutn \<longleftrightarrow>
     (\<forall>fs. slice_atoms cutn (features r_ij f_ij) = Inr fs
          \<longrightarrow> filter_contract_at (filter_network L) F fs) \<and>
     (case cutoff_network L of
        None \<Rightarrow> True
      | Some cnet \<Rightarrow> (\<forall>rs. slice_atoms cutn r_ij = Inr rs \<longrightarrow> cutoff_contract_at cnet rs))"

text \<open>A layer with the widths \<open>n_in\<close>, \<open>n_filters\<close>, \<open>n_out\<close> that aggregates over the
  neighbour axis (axis 2, the default).\<close>

definition valid_layer :: "cfconv \<Rightarrow> nat \<Rightarrow> nat \<Rightarrow> nat \<Rightarrow> bool" where
  "valid_layer L n_in n_filters n_out \<longleftrightarrow>
     in_features (in2f L) = n_in \<and> out_features (in2f L) = n_filters \<and>
     in_features (f2out L) = n_filters \<and> out_features (f2out L) = n_out \<and>
     axis (agg L) = 2"

text \<open>Inputs of consistent shapes for \<open>B\<close> molecules of \<open>N\<close> atoms with \<open>K\<close> neighbour
  slots each, none of the three being 0.\<close>

definition valid_inputs ::
  "real tensor \<Rightarrow> real tensor \<Rightarrow> int tensor \<Rightarrow> real tensor \<Rightarrow> real tensor option
     \<Rightarrow> nat \<Rightarrow> nat \<Rightarrow> nat \<Rightarrow> nat \<Rightarrow> bool" where
  "valid_inputs x r_ij neighbors pairwise_mask f_ij B N K n_in \<longleftrightarrow>
     0 < B \<and> 0 < N \<and> 0 < K \<and>
     wf x \<and> shape x = [B, N, n_in] \<and>
     wf r_ij \<and> shape r_ij = [B, N, K] \<and>
     wf neighbors \<and> shape neighbors = [B, N, K] \<and>
     wf pairwise_mask \<and> shape pairwise_mask = [B, N, K] \<and>
     (case f_ij of
        None \<Rightarrow> True
      | Some f \<Rightarrow> wf f \<and> length (shape f) = 4 \<and> butlast (shape f) = [B, N, K])"

text \<open>The neighbour indices of the first \<open>c\<close> atoms are atom indices.\<close>

definition valid_neighbors :: "int tensor \<Rightarrow> nat \<Rightarrow> nat \<Rightarrow> nat \<Rightarrow> nat \<Rightarrow> bool" where
  "valid_neighbors neighbors B c K N \<longleftrightarrow>
     (\<forall>b<B. \<forall>i<c. \<forall>k<K.
        0 \<le> entry neighbors [b, i, k] \<and> entry neighbors [b, i, k] < int N)"


text \<open>The value of the \<open>cut\<close> argument after line 52.\<close>

definition resolve_cut :: "int option \<Rightarrow> nat \<Rightarrow> int" where
  "resolve_cut cutn N = (case cutn of None \<Rightarrow> int N | Some c \<Rightarrow> c)"

text \<open>A network acts atom by atom on inputs with \<open>r\<close> axes when it commutes with taking
  the first \<open>m\<close> atom rows: applying it to the rows kept by \<open>[:, :m]\<close> gives the first \<open>m\<close>
  rows of its result on all atoms.  Networks built from layers that act on the last axis
  are of this kind; a network that normalises over the atoms is not.\<close>

definition atomwise :: "nat \<Rightarrow> network \<Rightarrow> bool" where
  "atomwise r net \<longleftrightarrow>
     (\<forall>t m. wf t \<and> length (shape t) = r \<longrightarrow>
        bind_err (slice_atoms (int m) t) net = bind_err (net t) (slice_atoms (int m)))"

subsection \<open>The result of \<open>forward\<close>, written out\<close>

text \<open>The masked sum over the \<open>K\<close> neighbours of atom \<open>i\<close> in batch \<open>b\<close>, and the floored
  count of its non-zero mask entries; \<open>aggregate_forward\<close> is shown below to compute
  exactly these on the neighbour axis.\<close>

definition agg_sum :: "real tensor \<Rightarrow> real tensor \<Rightarrow> nat \<Rightarrow> nat \<Rightarrow> nat \<Rightarrow> nat \<Rightarrow> real" where
  "agg_sum inp msk K b i f =
     sum_list (map (\<lambda>k. entry inp [b, i, k, f] * entry msk [b, i, k]) [0..<K])"

definition agg_count :: "real tensor \<Rightarrow> nat \<Rightarrow> nat \<Rightarrow> nat \<Rightarrow> real" where
  "agg_count msk K b i =
     max 1 (real (length (filter (\<lambda>k. entry msk [b, i, k] \<noteq> 0) [0..<K])))"

text \<open>The entries of the result of \<open>forward\<close> in terms of the inputs and of the filter
  \<open>W\<close>: the projected feature of atom \<open>j\<close>, the aggregate of atom \<open>i\<close> before the output
  projection, and the output tensor for \<open>c\<close> atoms.\<close>

definition projected :: "cfconv \<Rightarrow> real tensor \<Rightarrow> nat \<Rightarrow> nat \<Rightarrow> nat \<Rightarrow> real" where
  "projected L x b j f = dense_entry (in2f L) x [b, j] f"

text \<open>The gathered projected features (lines 65-72) of the first \<open>c\<close> atoms.\<close>

definition gathered_features ::
  "cfconv \<Rightarrow> real tensor \<Rightarrow> int tensor \<Rightarrow> nat \<Rightarrow> nat \<Rightarrow> nat \<Rightarrow> real tensor" where
  "gathered_features L x neighbors B c K =
     mk [B, c, K, out_features (in2f L)]
        (\<lambda>idx. projected L x (idx ! 0) (nat (entry neighbors [idx ! 0, idx ! 1, idx ! 2])) (idx ! 3))"

text \<open>The tensor that \<open>forward\<close> hands to the aggregation (line 74): the gathered projected
  features times the filter.\<close>

definition weighted_neighbors ::
  "cfconv \<Rightarrow> real tensor \<Rightarrow> int tensor \<Rightarrow> real tensor \<Rightarrow> nat \<Rightarrow> nat \<Rightarrow> nat \<Rightarrow> real tensor" where
  "weighted_neighbors L x neighbors W B c K =
     mk [B, c, K, out_features (in2f L)]
        (\<lambda>idx. projected L x (idx ! 0) (nat (entry neighbors [idx ! 0, idx ! 1, idx ! 2])) (idx ! 3)
                * entry W idx)"

definition conv_agg ::
  "cfconv \<Rightarrow> real tensor \<Rightarrow> int tensor \<Rightarrow> real tensor \<Rightarrow> real tensor \<Rightarrow> nat
     \<Rightarrow> nat \<Rightarrow> nat \<Rightarrow> nat \<Rightarrow> real" where
  "conv_agg L x neighbors msk W K b i f =
     (let s = sum_list (map (\<lambda>k. projected L x b (nat (entry neighbors [b, i, k])) f
                                   * entry W [b, i, k, f] * entry msk [b, i, k]) [0..<K])
      in if mean (agg L) then s / agg_count msk K b i else s)"

definition conv_out ::
  "cfconv \<Rightarrow> real tensor \<Rightarrow> int tensor \<Rightarrow> real tensor \<Rightarrow> real tensor \<Rightarrow> nat \<Rightarrow> nat \<Rightarrow> nat
     \<Rightarrow> real tensor" where
  "conv_out L x neighbors msk W B c K =
     mk [B, c, out_features (f2out L)]
        (\<lambda>idx. dense_entry (f2out L)
                  (mk [B, c, in_features (f2out L)]
                      (\<lambda>j. conv_agg L x neighbors msk W K (j ! 0) (j ! 1) (j ! 2)))
                  [idx ! 0, idx ! 1] (idx ! 2))"

subsection \<open>A small concrete layer and input\<close>

text \<open>One molecule of three atoms with two neighbour slots each; two input features, two
  filters, one output feature.  The filter network is a \<open>Dense\<close> layer from one distance
  feature to the two filters; the third atom has a padded (masked) second neighbour.\<close>

definition ex_filter :: dense where
  "ex_filter = \<lparr>in_features = 1, out_features = 2,
                weight = \<lparr>shape = [2, 1], elems = [1, 1]\<rparr>, bias = None, activation = None\<rparr>"

text \<open>A cutoff network that returns 1 for every pair.\<close>

definition ones_cutoff :: network where
  "ones_cutoff t = Inr (mk (shape t) (\<lambda>idx. 1))"

text \<open>A filter network that keeps the shape contract but does not act atom by atom: every
  filter entry is the number of atom rows it was given.\<close>

definition count_network :: "nat \<Rightarrow> network" where
  "count_network F t = Inr (mk (butlast (shape t) @ [F]) (\<lambda>idx. real (shape t ! 1)))"

definition ex_layer :: cfconv where
  "ex_layer = CFConv 2 2 1 (dense_forward ex_filter) None None False 2
     \<lparr>shape = [2, 2], elems = [1, 0, 0, 1]\<rparr>
     \<lparr>shape = [1, 2], elems = [1, 1]\<rparr>
     \<lparr>shape = [1], elems = [0]\<rparr>"

definition ex_x :: "real tensor" where
  "ex_x = \<lparr>shape = [1, 3, 2], elems = [1, 2, 3, 4, 5, 6]\<rparr>"

definition ex_r :: "real tensor" where
  "ex_r = \<lparr>shape = [1, 3, 2], elems = [1, 1, 1, 1, 1, 1]\<rparr>"

definition ex_neighbors :: "int tensor" where
  "ex_neighbors = \<lparr>shape = [1, 3, 2], elems = [1, 2, 0, 2, 0, 1]\<rparr>"

definition ex_mask :: "real tensor" where
  "ex_mask = \<lparr>shape = [1, 3, 2], elems = [1, 1, 1, 1, 1, 0]\<rparr>"

text \<open>Products of gathered features and filters for the example (any values do), and a mask
  whose third atom has no neighbour at all.\<close>

definition ex_pairs :: "real tensor" where
  "ex_pairs = \<lparr>shape = [1, 3, 2, 2], elems = [1, 2, 3, 4, 5, 6, 7, 8, 9, 10, 11, 12]\<rparr>"

definition ex_mask0 :: "real tensor" where
  "ex_mask0 = \<lparr>shape = [1, 3, 2], elems = [1, 1, 1, 0, 0, 0]\<rparr>"



definition ex_mask_single :: "real tensor" where
  "ex_mask_single = \<lparr>shape = [1, 3, 1], elems = [1, 1, 1]\<rparr>"

text \<open>The example's features with those of the third atom changed.\<close>

definition ex_x_changed :: "real tensor" where
  "ex_x_changed = \<lparr>shape = [1, 3, 2], elems = [1, 2, 3, 4, 0, 0]\<rparr>"

section \<open>Properties of the tensor operations\<close>

lemma bind_err_Inr [simp]: "bind_err (Inr v) f = f v"
  and bind_err_Inl [simp]: "bind_err (Inl e) f = Inl e"
  by (simp_all add: bind_err_def)

lemma ravel_less: "inb s idx \<Longrightarrow> ravel s idx < prod_list s"
proof (induction s idx rule: ravel.induct)
  case (1 d ds i "is")
  then have i: "i < d" and r: "ravel ds is < prod_list ds"
    by (simp_all add: inb_def)
  have "i * prod_list ds + ravel ds is < i * prod_list ds + prod_list ds"
    using r by simp
  also have "\<dots> = Suc i * prod_list ds" by simp
  also have "\<dots> \<le> d * prod_list ds"
    using i by (intro mult_le_mono1) simp
  finally show ?case by simp
qed (simp_all add: inb_def)

lemma unravel_ravel: "inb s idx \<Longrightarrow> unravel s (ravel s idx) = idx"
proof (induction s idx rule: ravel.induct)
  case (1 d ds i "is")
  then have r: "ravel ds is < prod_list ds" and b: "inb ds is"
    by (simp_all add: inb_def ravel_less)
  then show ?case using 1 by simp
qed (simp_all add: inb_def)

lemma ravel_unravel: "p < prod_list s \<Longrightarrow> ravel s (unravel s p) = p"
proof (induction s arbitrary: p)
  case Nil
  then show ?case by simp
next
  case (Cons d ds)
  have pos: "0 < prod_list ds"
    using Cons.prems by (cases "prod_list ds = 0") simp_all
  then have "ravel ds (unravel ds (p mod prod_list ds)) = p mod prod_list ds"
    by (intro Cons.IH) simp
  then show ?case by simp
qed

lemma inb_unravel: "p < prod_list s \<Longrightarrow> inb s (unravel s p)"
proof (induction s arbitrary: p)
  case Nil
  then show ?case by (simp add: inb_def)
next
  case (Cons d ds)
  have pos: "0 < prod_list ds"
    using Cons.prems by (cases "prod_list ds = 0") simp_all
  have "p div prod_list ds < d"
    using Cons.prems pos by (simp add: less_mult_imp_div_less mult.commute)
  moreover have "inb ds (unravel ds (p mod prod_list ds))"
    using pos by (intro Cons.IH) simp
  ultimately show ?case by (simp add: inb_def)
qed

lemma wf_mk [simp]: "wf (mk s g)" and shape_mk [simp]: "shape (mk s g) = s"
  by (simp_all add: wf_def mk_def)

lemma entry_mk: "inb s idx \<Longrightarrow> entry (mk s g) idx = g idx"
  by (simp add: entry_def mk_def ravel_less unravel_ravel)

lemma mk_cong: "(\<And>idx. inb s idx \<Longrightarrow> g idx = h idx) \<Longrightarrow> mk s g = mk s h"
  by (simp add: mk_def inb_unravel)

lemma mk_entry: "wf t \<Longrightarrow> mk (shape t) (entry t) = t"
proof -
  assume w: "wf t"
  have "map (\<lambda>p. elems t ! ravel (shape t) (unravel (shape t) p)) [0..<prod_list (shape t)]
      = elems t"
    using w by (intro nth_equalityI) (simp_all add: wf_def ravel_unravel)
  then show ?thesis by (simp add: mk_def entry_def)
qed

lemma tensor_eqI:
  assumes "wf a" "wf b" "shape a = shape b"
    and "\<And>idx. inb (shape a) idx \<Longrightarrow> entry a idx = entry b idx"
  shows "a = b"
proof -
  have "mk (shape a) (entry a) = mk (shape a) (entry b)"
    using assms(4) by (rule mk_cong)
  then have "mk (shape a) (entry a) = mk (shape b) (entry b)"
    using assms(3) by simp
  then show ?thesis using assms(1,2) by (simp only: mk_entry)
qed

lemma inb_Nil [simp]: "inb [] idx \<longleftrightarrow> idx = []"
  by (simp add: inb_def)

lemma inb_Cons: "inb (d # ds) idx \<longleftrightarrow> (\<exists>i is. idx = i # is \<and> i < d \<and> inb ds is)"
  by (simp add: inb_def list_all2_Cons2)

lemma inb_Cons_Cons [simp]: "inb (d # ds) (i # is) \<longleftrightarrow> i < d \<and> inb ds is"
  by (simp add: inb_def)

lemma inb_length: "inb s idx \<Longrightarrow> length idx = length s"
  by (simp add: inb_def list_all2_lengthD)

lemma inb3E:
  assumes "inb [B, N, K] idx"
  obtains b i k where "idx = [b, i, k]" "b < B" "i < N" "k < K"
  using assms by (auto simp: inb_Cons)

lemma inb4E:
  assumes "inb [B, N, K, F] idx"
  obtains b i k f where "idx = [b, i, k, f]" "b < B" "i < N" "k < K" "f < F"
  using assms by (auto simp: inb_Cons)

lemma slice_atoms_shape:
  "shape t = b # n # rest \<Longrightarrow> slice_atoms c t = Inr (mk (b # py_stop c n # rest) (entry t))"
  by (simp add: slice_atoms_def)

lemma py_stop_le: "py_stop c n \<le> n"
  by (auto simp: py_stop_def)

lemma py_stop_nat [simp]: "py_stop (int m) n = min m n"
  by (simp add: py_stop_def)

lemma py_stop_idem: "0 \<le> cutv \<Longrightarrow> py_stop cutv (py_stop cutv N) = py_stop cutv N"
  by (simp add: py_stop_def)

lemma slice_atoms_id:
  assumes "wf t" "shape t = b # n # rest" "py_stop c n = n"
  shows "slice_atoms c t = Inr t"
  using assms mk_entry [of t] by (simp add: slice_atoms_def)

lemma slice_slice:
  assumes "shape t = b # n # rest" "m \<le> n"
  shows "slice_atoms (int m) (mk (b # n # rest) (entry t)) = Inr (mk (b # m # rest) (entry t))"
proof -
  have "mk (b # m # rest) (entry (mk (b # n # rest) (entry t))) = mk (b # m # rest) (entry t)"
  proof (rule mk_cong)
    fix idx assume "inb (b # m # rest) idx"
    then have "inb (b # n # rest) idx"
      using assms(2) by (auto simp: inb_Cons)
    then show "entry (mk (b # n # rest) (entry t)) idx = entry t idx"
      by (rule entry_mk)
  qed
  then show ?thesis
    using assms(2) by (simp add: slice_atoms_def min_def)
qed

subsection \<open>Facts about \<open>view\<close>, \<open>expand\<close> and \<open>gather\<close>\<close>

lemma infer_size_first:
  assumes "0 < J"
  shows "infer_size [-1, int J, 1] (B * J) = Inr [B, J, 1]"
  using assms by (simp add: infer_size_def Let_def)

lemma infer_size_last:
  assumes "0 < B * (c * K)"
  shows "infer_size [int B, int c, int K, -1] (B * (c * K * F)) = Inr [B, c, K, F]"
proof -
  have "B * (c * K * F) = F * (B * (c * K))" by (simp add: mult_ac)
  then show ?thesis
    using assms by (simp add: infer_size_def Let_def)
qed

lemma view_flat:
  assumes "shape t = [B, c, K]" "0 < c * K"
  shows "view [-1, int (c * K), 1] t = Inr (t\<lparr>shape := [B, c * K, 1]\<rparr>)"
  using assms infer_size_first [of "c * K" B] by (simp add: view_def del: of_nat_mult)

lemma view_unflat:
  assumes "shape g = [B, c * K, F]" "0 < B * (c * K)"
  shows "view [int B, int c, int K, -1] g = Inr (g\<lparr>shape := [B, c, K, F]\<rparr>)"
  using assms infer_size_last [of B c K F] by (simp add: view_def)

lemma expand_last:
  assumes "shape t = [B, J, 1]"
  shows "expand [-1, -1, int F] t = Inr (mk [B, J, F] (\<lambda>idx. entry t [idx ! 0, idx ! 1, 0]))"
proof -
  have "mk [B, J, F] (\<lambda>idx. entry t (map2 (\<lambda>d i. if d = 1 then 0 else i) [B, J, 1] idx))
      = mk [B, J, F] (\<lambda>idx. entry t [idx ! 0, idx ! 1, 0])"
  proof (rule mk_cong)
    fix idx assume "inb [B, J, F] idx"
    then obtain b j f where idx: "idx = [b, j, f]" and lt: "b < B" "j < J" "f < F"
      by (rule inb3E)
    have "ravel [B, J, 1] [if B = 1 then 0 else b, if J = 1 then 0 else j, 0]
        = ravel [B, J, 1] [b, j, 0]"
      using lt by auto
    then show "entry t (map2 (\<lambda>d i. if d = 1 then 0 else i) [B, J, 1] idx)
        = entry t [idx ! 0, idx ! 1, 0]"
      using assms by (simp add: idx entry_def)
  qed
  then show ?thesis using assms by (simp add: expand_def)
qed

lemma flat_index_less: "i < c \<Longrightarrow> k < K \<Longrightarrow> i * K + k < c * (K::nat)"
proof -
  assume i: "i < c" and k: "k < K"
  have "i * K + k < i * K + K" using k by simp
  also have "\<dots> = Suc i * K" by simp
  also have "\<dots> \<le> c * K" using i by (intro mult_le_mono1) simp
  finally show ?thesis .
qed

lemma entry_reshape: "entry (t\<lparr>shape := s\<rparr>) idx = elems t ! ravel s idx"
  by (simp add: entry_def)

lemma elems_mk_set:
  assumes "v \<in> set (elems (mk s g))"
  obtains idx where "inb s idx" "v = g idx"
proof -
  from assms obtain p where "p < prod_list s" "v = g (unravel s p)"
    by (auto simp: mk_def)
  then show thesis
    using that [of "unravel s p"] by (simp add: inb_unravel)
qed

lemma gather1_rank3:
  assumes "shape y = [By, N, F]" "shape index = [B, J, F]" "B \<le> By"
    and "\<And>v. v \<in> set (elems index) \<Longrightarrow> 0 \<le> v \<and> v < int N"
  shows "gather1 y index =
           Inr (mk [B, J, F] (\<lambda>idx. entry y (idx[1 := nat (entry index idx)])))"
proof -
  have "list_all (\<lambda>j. 0 \<le> j \<and> j < int N) (elems index)"
    using assms(4) by (simp add: list_all_iff)
  then show ?thesis
    using assms(1-3) by (simp add: gather1_def)
qed

lemma neighbor_gather_general:
  assumes y: "shape y = [By, Ny, F]"
    and n: "shape neighbors = [B, N, K]"
    and le: "B \<le> By"
    and c: "c = py_stop cutn N"
    and pos: "0 < B" "0 < c" "0 < K"
    and valid: "\<And>b i k. b < B \<Longrightarrow> i < c \<Longrightarrow> k < K \<Longrightarrow>
                  0 \<le> entry neighbors [b, i, k] \<and> entry neighbors [b, i, k] < int Ny"
  shows "neighbor_gather y neighbors cutn =
           Inr (mk [B, c, K, F]
                  (\<lambda>idx. entry y [idx ! 0, nat (entry neighbors [idx ! 0, idx ! 1, idx ! 2]),
                                   idx ! 3]))"
proof -
  define ns where "ns = mk [B, c, K] (entry neighbors)"
  define nbh1 where "nbh1 = ns\<lparr>shape := [B, c * K, 1]\<rparr>"
  define nbh2 where "nbh2 = mk [B, c * K, F] (\<lambda>idx. entry nbh1 [idx ! 0, idx ! 1, 0])"
  define g where "g = mk [B, c * K, F] (\<lambda>idx. entry y (idx[1 := nat (entry nbh2 idx)]))"
  have cK: "0 < c * K" and BcK: "0 < B * (c * K)"
    using pos by simp_all
  have s1: "slice_atoms cutn neighbors = Inr ns"
    using n c by (simp add: slice_atoms_shape ns_def)
  have shape_ns: "shape ns = [B, c, K]"
    by (simp add: ns_def)
  have s2: "view [-1, int (c * K), 1] ns = Inr nbh1"
    unfolding nbh1_def using shape_ns cK by (rule view_flat)
  have s3: "expand [-1, -1, int F] nbh1 = Inr nbh2"
    unfolding nbh2_def by (rule expand_last) (simp add: nbh1_def)
  have ns_range: "0 \<le> v \<and> v < int Ny" if "v \<in> set (elems ns)" for v
  proof -
    from that obtain idx where "inb [B, c, K] idx" "v = entry neighbors idx"
      unfolding ns_def by (rule elems_mk_set)
    then show ?thesis using valid by (auto elim!: inb3E)
  qed
  have len_ns: "length (elems ns) = B * (c * K)"
    by (simp add: ns_def mk_def)
  have nbh1_at: "entry nbh1 [b, j, 0] = elems ns ! (b * (c * K) + j)" for b j
    by (simp add: nbh1_def entry_reshape)
  have nbh2_range: "0 \<le> v \<and> v < int Ny" if "v \<in> set (elems nbh2)" for v
  proof -
    from that obtain idx where "inb [B, c * K, F] idx" "v = entry nbh1 [idx ! 0, idx ! 1, 0]"
      unfolding nbh2_def by (rule elems_mk_set)
    then obtain b j f where "b < B" "j < c * K" and v: "v = elems ns ! (b * (c * K) + j)"
      by (auto elim!: inb3E simp: nbh1_at)
    then have "b * (c * K) + j < B * (c * K)"
      by (rule_tac flat_index_less)
    then have "v \<in> set (elems ns)"
      using v len_ns by simp
    then show ?thesis by (rule ns_range)
  qed
  have s4: "gather1 y nbh2 = Inr g"
    unfolding g_def using y _ le nbh2_range by (rule gather1_rank3) (simp add: nbh2_def)
  have s5: "view [int B, int c, int K, -1] g = Inr (g\<lparr>shape := [B, c, K, F]\<rparr>)"
    using _ BcK by (rule view_unflat) (simp add: g_def)
  have run: "neighbor_gather y neighbors cutn = Inr (g\<lparr>shape := [B, c, K, F]\<rparr>)"
    using s1 s2 s3 s4 s5 shape_ns y
    by (simp add: neighbor_gather_def dim_size_def del: of_nat_mult)
  have "g\<lparr>shape := [B, c, K, F]\<rparr> =
        mk [B, c, K, F]
          (\<lambda>idx. entry y [idx ! 0, nat (entry neighbors [idx ! 0, idx ! 1, idx ! 2]), idx ! 3])"
  proof (rule tensor_eqI)
    show "wf (g\<lparr>shape := [B, c, K, F]\<rparr>)"
      by (simp add: wf_def g_def mk_def mult_ac)
  next
    fix idx
    assume "inb (shape (g\<lparr>shape := [B, c, K, F]\<rparr>)) idx"
    then obtain b i k f where idx: "idx = [b, i, k, f]"
      and lt: "b < B" "i < c" "k < K" "f < F"
      by (auto elim!: inb4E)
    have j: "i * K + k < c * K"
      using lt by (simp add: flat_index_less)
    have shape_g: "shape g = [B, c * K, F]"
      by (simp add: g_def)
    have r: "ravel [B, c, K, F] [b, i, k, f] = ravel [B, c * K, F] [b, i * K + k, f]"
      by (simp add: algebra_simps)
    have "entry (g\<lparr>shape := [B, c, K, F]\<rparr>) idx = elems g ! ravel [B, c, K, F] [b, i, k, f]"
      by (simp only: idx entry_reshape)
    also have "\<dots> = entry g [b, i * K + k, f]"
      by (simp only: entry_def shape_g r)
    finally have "entry (g\<lparr>shape := [B, c, K, F]\<rparr>) idx = entry g [b, i * K + k, f]" .
    also have "\<dots> = entry y [b, nat (entry nbh2 [b, i * K + k, f]), f]"
      using lt j by (simp add: g_def entry_mk)
    also have "entry nbh2 [b, i * K + k, f] = entry nbh1 [b, i * K + k, 0]"
      using lt j by (simp add: nbh2_def entry_mk)
    also have "\<dots> = elems ns ! ravel [B, c, K] [b, i, k]"
      by (simp add: nbh1_at algebra_simps)
    also have "\<dots> = entry neighbors [b, i, k]"
      using lt entry_mk [of "[B, c, K]" "[b, i, k]" "entry neighbors"]
      by (simp add: ns_def entry_def)
    finally show "entry (g\<lparr>shape := [B, c, K, F]\<rparr>) idx =
        entry (mk [B, c, K, F]
          (\<lambda>idx. entry y [idx ! 0, nat (entry neighbors [idx ! 0, idx ! 1, idx ! 2]), idx ! 3])) idx"
      using lt by (simp add: idx entry_mk)
  qed simp_all
  with run show ?thesis by simp
qed

lemma neighbor_gather_eq:
  assumes y: "shape y = [B, N, F]"
    and n: "shape neighbors = [B, N, K]"
    and c: "c = py_stop cutn N"
    and pos: "0 < B" "0 < c" "0 < K"
    and valid: "\<And>b i k. b < B \<Longrightarrow> i < c \<Longrightarrow> k < K \<Longrightarrow>
                  0 \<le> entry neighbors [b, i, k] \<and> entry neighbors [b, i, k] < int N"
  shows "neighbor_gather y neighbors cutn =
           Inr (mk [B, c, K, F]
                  (\<lambda>idx. entry y [idx ! 0, nat (entry neighbors [idx ! 0, idx ! 1, idx ! 2]),
                                   idx ! 3]))"
  using y n _ c pos valid by (rule neighbor_gather_general) simp_all

lemma infer_size_empty: "infer_size [-1, 0, 1] 0 = Inl InvalidView"
  by (simp add: infer_size_def)

lemma neighbor_gather_empty:
  assumes n: "shape neighbors = [B, N, K]"
    and e: "py_stop cutv N * K = 0"
  shows "neighbor_gather y neighbors cutv = Inl InvalidView"
proof -
  let ?ns = "mk [B, py_stop cutv N, K] (entry neighbors)"
  have s1: "slice_atoms cutv neighbors = Inr ?ns"
    using n by (simp add: slice_atoms_shape)
  have "prod_list (shape ?ns) = 0" and "int (py_stop cutv N * K) = 0"
    using e by auto
  then have "view [-1, int (py_stop cutv N * K), 1] ?ns = Inl InvalidView"
    by (simp only: view_def infer_size_empty sum.case)
  then show ?thesis
    using s1 by (simp add: neighbor_gather_def dim_size_def del: of_nat_mult)
qed


subsection \<open>Facts about broadcasting\<close>

lemma broadcast_rev_same: "broadcast_rev s s = Some s"
  by (induction s) simp_all

lemma broadcast_shape_same [simp]: "broadcast_shape s s = Some s"
  by (simp add: broadcast_shape_def broadcast_rev_same)

lemma broadcast_shape_last1 [simp]: "broadcast_shape (s @ [F]) (s @ [1]) = Some (s @ [F])"
  by (simp add: broadcast_shape_def broadcast_rev_same)

lemma bidx_same: "inb s idx \<Longrightarrow> bidx s idx = idx"
proof -
  assume "inb s idx"
  then have "list_all2 (<) idx s" by (simp add: inb_def)
  then have "map2 (\<lambda>d i. if d = 1 then 0 else i) s idx = idx"
    by (induction rule: list_all2_induct) auto
  moreover have "length idx = length s"
    using \<open>inb s idx\<close> by (rule inb_length)
  ultimately show ?thesis by (simp add: bidx_def)
qed

lemma binop_same:
  assumes "shape a = s" "shape b = s"
  shows "binop f a b = Inr (mk s (\<lambda>idx. f (entry a idx) (entry b idx)))"
proof -
  have "mk s (\<lambda>idx. f (entry a (bidx s idx)) (entry b (bidx s idx)))
      = mk s (\<lambda>idx. f (entry a idx) (entry b idx))"
    by (rule mk_cong) (simp add: bidx_same)
  then show ?thesis using assms by (simp add: binop_def)
qed

lemma ravel_snoc:
  "length is = length s \<Longrightarrow> ravel (s @ [n]) (is @ [j]) = ravel s is * n + j"
  by (induction s "is" rule: ravel.induct) (simp_all add: algebra_simps)

lemma bidx_last1:
  assumes "inb (s @ [F]) idx"
  shows "bidx (s @ [1]) idx = butlast idx @ [0]"
proof -
  from assms have "list_all2 (<) idx (s @ [F])" by (simp add: inb_def)
  then obtain js j where idx: "idx = js @ [j]" and js: "list_all2 (<) js s"
    by (auto simp: list_all2_append2 list_all2_Cons2)
  from js have "map2 (\<lambda>d i. if d = 1 then 0 else i) s js = js"
    by (induction rule: list_all2_induct) auto
  moreover have "length js = length s"
    using js by (rule list_all2_lengthD)
  ultimately show ?thesis by (simp add: bidx_def idx)
qed

lemma entry_unsqueeze_last:
  "length is = length (shape t) \<Longrightarrow> entry (unsqueeze_last t) (is @ [0]) = entry t is"
  by (simp add: entry_def unsqueeze_last_def ravel_snoc)

lemma binop_last1:
  assumes "shape a = s @ [F]" "shape m = s"
  shows "binop f a (unsqueeze_last m) =
           Inr (mk (s @ [F]) (\<lambda>idx. f (entry a idx) (entry m (butlast idx))))"
proof -
  have "mk (s @ [F]) (\<lambda>idx. f (entry a (bidx (s @ [F]) idx))
                               (entry (unsqueeze_last m) (bidx (s @ [1]) idx)))
      = mk (s @ [F]) (\<lambda>idx. f (entry a idx) (entry m (butlast idx)))"
  proof (rule mk_cong)
    fix idx assume i: "inb (s @ [F]) idx"
    then have "length (butlast idx) = length (shape m)"
      using assms(2) by (simp add: inb_length)
    then have e: "entry (unsqueeze_last m) (butlast idx @ [0]) = entry m (butlast idx)"
      by (rule entry_unsqueeze_last)
    show "f (entry a (bidx (s @ [F]) idx)) (entry (unsqueeze_last m) (bidx (s @ [1]) idx))
        = f (entry a idx) (entry m (butlast idx))"
      by (simp only: bidx_same [OF i] bidx_last1 [OF i] e)
  qed
  moreover have "shape (unsqueeze_last m) = s @ [1]"
    using assms(2) by (simp add: unsqueeze_last_def)
  moreover have "broadcast_shape (s @ [F]) (s @ [1]) = Some (s @ [F])"
    by (rule broadcast_shape_last1)
  ultimately show ?thesis
    by (simp only: binop_def assms(1) option.case)
qed

lemma binop_bcast_last:
  assumes "shape a = s @ [F]" "shape b = s @ [1]"
  shows "binop f a b = Inr (mk (s @ [F]) (\<lambda>idx. f (entry a idx) (entry b (butlast idx @ [0]))))"
proof -
  have "mk (s @ [F]) (\<lambda>idx. f (entry a (bidx (s @ [F]) idx)) (entry b (bidx (s @ [1]) idx)))
      = mk (s @ [F]) (\<lambda>idx. f (entry a idx) (entry b (butlast idx @ [0])))"
  proof (rule mk_cong)
    fix idx assume i: "inb (s @ [F]) idx"
    show "f (entry a (bidx (s @ [F]) idx)) (entry b (bidx (s @ [1]) idx))
        = f (entry a idx) (entry b (butlast idx @ [0]))"
      by (simp only: bidx_same [OF i] bidx_last1 [OF i])
  qed
  moreover have "broadcast_shape (s @ [F]) (s @ [1]) = Some (s @ [F])"
    by (rule broadcast_shape_last1)
  ultimately show ?thesis
    by (simp only: binop_def assms option.case)
qed


lemma binop_shape:
  "binop f a b = Inr P \<Longrightarrow> broadcast_shape (shape a) (shape b) = Some (shape P)"
  by (auto simp: binop_def split: option.splits)









subsection \<open>Facts about \<open>Dense\<close> and \<open>Aggregate\<close>\<close>

lemma dense_forward_rank3:
  assumes "shape t = [B, N, in_features D]"
  shows "dense_forward D t =
           Inr (mk [B, N, out_features D] (\<lambda>idx. dense_entry D t [idx ! 0, idx ! 1] (idx ! 2)))"
proof -
  have "mk [B, N, out_features D] (\<lambda>idx. dense_entry D t (butlast idx) (last idx))
      = mk [B, N, out_features D] (\<lambda>idx. dense_entry D t [idx ! 0, idx ! 1] (idx ! 2))"
    by (rule mk_cong) (auto elim!: inb3E)
  then show ?thesis using assms by (simp add: dense_forward_def)
qed

lemma dense_entry_cong:
  assumes "\<And>j. j < in_features D \<Longrightarrow> entry t (lead @ [j]) = entry t' (lead @ [j])"
  shows "dense_entry D t lead oc = dense_entry D t' lead oc"
proof -
  have "map (\<lambda>j. entry t (lead @ [j]) * entry (weight D) [oc, j]) [0..<in_features D]
      = map (\<lambda>j. entry t' (lead @ [j]) * entry (weight D) [oc, j]) [0..<in_features D]"
    using assms by simp
  then show ?thesis by (simp only: dense_entry_def)
qed

lemma sum_axis_rank4:
  assumes "shape t = [B, c, K, F]"
  shows "sum_axis 2 t =
           mk [B, c, F] (\<lambda>idx. sum_list (map (\<lambda>k. entry t [idx ! 0, idx ! 1, k, idx ! 2]) [0..<K]))"
proof -
  have "mk [B, c, F] (\<lambda>idx. sum_list (map (\<lambda>k. entry t (take 2 idx @ k # drop 2 idx)) [0..<K]))
      = mk [B, c, F] (\<lambda>idx. sum_list (map (\<lambda>k. entry t [idx ! 0, idx ! 1, k, idx ! 2]) [0..<K]))"
    by (rule mk_cong) (auto elim!: inb3E)
  then show ?thesis using assms by (simp add: sum_axis_def)
qed

lemma neighbor_count_rank3:
  assumes "shape m = [B, c, K]"
  shows "neighbor_count 2 m = mk [B, c, 1] (\<lambda>idx. agg_count m K (idx ! 0) (idx ! 1))"
proof -
  have "mk [B, c, 1]
          (\<lambda>idx. max 1 (real (length (filter (\<lambda>k. entry m (idx[2 := k]) \<noteq> 0) [0..<K]))))
      = mk [B, c, 1] (\<lambda>idx. agg_count m K (idx ! 0) (idx ! 1))"
    by (rule mk_cong) (auto elim!: inb3E simp: agg_count_def)
  then show ?thesis using assms by (simp add: neighbor_count_def)
qed

lemma masked_sum_eq:
  assumes "shape inp = [B, c, K, F]" "shape msk = [B, c, K]"
  shows "sum_axis 2 (mk [B, c, K, F] (\<lambda>idx. entry inp idx * entry msk (butlast idx)))
       = mk [B, c, F] (\<lambda>idx. agg_sum inp msk K (idx ! 0) (idx ! 1) (idx ! 2))"
proof -
  let ?masked = "mk [B, c, K, F] (\<lambda>idx. entry inp idx * entry msk (butlast idx))"
  have "sum_axis 2 ?masked =
          mk [B, c, F]
            (\<lambda>idx. sum_list (map (\<lambda>k. entry ?masked [idx ! 0, idx ! 1, k, idx ! 2]) [0..<K]))"
    by (rule sum_axis_rank4) simp
  also have "\<dots> = mk [B, c, F] (\<lambda>idx. agg_sum inp msk K (idx ! 0) (idx ! 1) (idx ! 2))"
  proof (rule mk_cong)
    fix idx assume "inb [B, c, F] idx"
    then obtain b i f where idx: "idx = [b, i, f]" and lt: "b < B" "i < c" "f < F"
      by (rule inb3E)
    have "map (\<lambda>k. entry ?masked [b, i, k, f]) [0..<K]
        = map (\<lambda>k. entry inp [b, i, k, f] * entry msk [b, i, k]) [0..<K]"
      using lt by (simp add: entry_mk)
    then have "sum_list (map (\<lambda>k. entry ?masked [b, i, k, f]) [0..<K]) = agg_sum inp msk K b i f"
      by (simp only: agg_sum_def)
    then show "sum_list (map (\<lambda>k. entry ?masked [idx ! 0, idx ! 1, k, idx ! 2]) [0..<K])
        = agg_sum inp msk K (idx ! 0) (idx ! 1) (idx ! 2)"
      by (simp add: idx)
  qed
  finally show ?thesis .
qed

lemma aggregate_forward_eq:
  assumes inp: "shape inp = [B, c, K, F]" and msk: "shape msk = [B, c, K]"
    and ax: "axis A = 2"
  shows "aggregate_forward A inp msk =
           Inr (mk [B, c, F]
                  (\<lambda>idx. if mean A
                          then agg_sum inp msk K (idx ! 0) (idx ! 1) (idx ! 2)
                               / agg_count msk K (idx ! 0) (idx ! 1)
                          else agg_sum inp msk K (idx ! 0) (idx ! 1) (idx ! 2)))"
proof -
  let ?masked = "mk [B, c, K, F] (\<lambda>idx. entry inp idx * entry msk (butlast idx))"
  let ?S = "mk [B, c, F] (\<lambda>idx. agg_sum inp msk K (idx ! 0) (idx ! 1) (idx ! 2))"
  let ?N = "mk [B, c, 1] (\<lambda>idx. agg_count msk K (idx ! 0) (idx ! 1))"
  have m: "binop (*) inp (unsqueeze_last msk) = Inr ?masked"
    using binop_last1 [of inp "[B, c, K]" F msk "(*)"] inp msk by simp
  have s: "sum_axis 2 ?masked = ?S"
    using inp msk by (rule masked_sum_eq)
  have n: "neighbor_count 2 msk = ?N"
    using msk by (rule neighbor_count_rank3)
  have ax4: "norm_axis (axis A) (length (shape ?masked)) = Inr 2"
    and ax3: "norm_axis (axis A) (length (shape msk)) = Inr 2"
    using ax msk by (simp_all add: norm_axis_def)
  show ?thesis
  proof (cases "mean A")
    case False
    then show ?thesis
      using m s ax4 by (simp add: aggregate_forward_def)
  next
    case True
    have "binop (/) ?S ?N =
            Inr (mk ([B, c] @ [F]) (\<lambda>idx. entry ?S idx / entry ?N (butlast idx @ [0])))"
      by (rule binop_bcast_last) simp_all
    also have "mk ([B, c] @ [F]) (\<lambda>idx. entry ?S idx / entry ?N (butlast idx @ [0]))
        = mk [B, c, F] (\<lambda>idx. agg_sum inp msk K (idx ! 0) (idx ! 1) (idx ! 2)
                               / agg_count msk K (idx ! 0) (idx ! 1))"
      unfolding append_Cons append_Nil
    proof (rule mk_cong)
      fix idx assume "inb [B, c, F] idx"
      then obtain b i f where idx: "idx = [b, i, f]" and lt: "b < B" "i < c" "f < F"
        by (rule inb3E)
      show "entry ?S idx / entry ?N (butlast idx @ [0])
          = agg_sum inp msk K (idx ! 0) (idx ! 1) (idx ! 2) / agg_count msk K (idx ! 0) (idx ! 1)"
        using lt by (simp add: idx entry_mk)
    qed
    finally have d: "binop (/) ?S ?N =
        Inr (mk [B, c, F] (\<lambda>idx. agg_sum inp msk K (idx ! 0) (idx ! 1) (idx ! 2)
                               / agg_count msk K (idx ! 0) (idx ! 1)))" .
    show ?thesis
      using True m s n ax4 ax3 d by (simp add: aggregate_forward_def)
  qed
qed

lemma agg_sum_masked_zero:
  assumes "\<And>k. k < K \<Longrightarrow> entry msk [b, i, k] = 0"
  shows "agg_sum inp msk K b i f = 0"
proof -
  have "map (\<lambda>k. entry inp [b, i, k, f] * entry msk [b, i, k]) [0..<K] = map (\<lambda>k. 0) [0..<K]"
    using assms by simp
  then show ?thesis
    unfolding agg_sum_def by (simp only: sum_list_0)
qed

lemma agg_count_ge1: "1 \<le> agg_count msk K b i"
  by (simp add: agg_count_def)

section \<open>The stages of \<open>forward\<close>\<close>

subsection \<open>The filter\<close>

lemma shape4_butlast:
  assumes "length s = 4" "butlast s = [B, N, K]"
  shows "s = [B, N, K, last s]"
proof -
  from assms(1) have "s \<noteq> []" by auto
  then have "s = butlast s @ [last s]" by simp
  then show ?thesis using assms(2) by simp
qed

lemma features_shape:
  assumes "valid_inputs x r_ij neighbors pairwise_mask f_ij B N K n_in"
  shows "\<exists>G. shape (features r_ij f_ij) = [B, N, K, G]"
proof (cases f_ij)
  case None
  then show ?thesis
    using assms by (simp add: valid_inputs_def unsqueeze_last_def features_def)
next
  case (Some f)
  then have "shape f = [B, N, K, last (shape f)]"
    using assms shape4_butlast [of "shape f" B N K] by (simp add: valid_inputs_def)
  then show ?thesis using Some by (auto simp: features_def)
qed

lemma filter_weights_ok:
  assumes ok: "networks_ok L F r_ij f_ij cutv"
    and f: "shape (features r_ij f_ij) = [B, N, K, G]"
    and r: "shape r_ij = [B, N, K]"
    and c: "c = py_stop cutv N"
  shows "\<exists>W. filter_weights L r_ij (features r_ij f_ij) cutv = Inr W
             \<and> wf W \<and> shape W = [B, c, K, F]"
proof -
  let ?fs = "mk [B, c, K, G] (entry (features r_ij f_ij))"
  have s1: "slice_atoms cutv (features r_ij f_ij) = Inr ?fs"
    using f c by (simp add: slice_atoms_shape)
  then have "filter_contract_at (filter_network L) F ?fs"
    using ok by (simp add: networks_ok_def)
  then obtain W where W: "filter_network L ?fs = Inr W" "wf W" "shape W = [B, c, K, F]"
    by (auto simp: filter_contract_at_def)
  show ?thesis
  proof (cases "cutoff_network L")
    case None
    then show ?thesis
      using s1 W by (simp add: filter_weights_def)
  next
    case (Some cnet)
    let ?rs = "mk [B, c, K] (entry r_ij)"
    have s2: "slice_atoms cutv r_ij = Inr ?rs"
      using r c by (simp add: slice_atoms_shape)
    then have "cutoff_contract_at cnet ?rs"
      using ok Some by (simp add: networks_ok_def)
    then obtain C where C: "cnet ?rs = Inr C" "shape C = [B, c, K]"
      by (auto simp: cutoff_contract_at_def)
    have "binop (*) W (unsqueeze_last C)
        = Inr (mk ([B, c, K] @ [F]) (\<lambda>idx. entry W idx * entry C (butlast idx)))"
      by (rule binop_last1) (simp_all add: W C)
    then show ?thesis
      using s1 s2 W C Some by (simp add: filter_weights_def)
  qed
qed

lemma filter_weights_cong:
  assumes "shape f = [B, N, K, G]" "shape r_ij = [B, N, K]"
    and "py_stop c1 N = py_stop c2 N"
  shows "filter_weights L r_ij f c1 = filter_weights L r_ij f c2"
proof -
  have "slice_atoms c1 f = slice_atoms c2 f" "slice_atoms c1 r_ij = slice_atoms c2 r_ij"
    using assms by (simp_all add: slice_atoms_def)
  then show ?thesis by (simp only: filter_weights_def)
qed

lemma networks_ok_cong:
  assumes "shape (features r_ij f_ij) = [B, N, K, G]" "shape r_ij = [B, N, K]"
    and "py_stop c1 N = py_stop c2 N"
    and "networks_ok L F r_ij f_ij c1"
  shows "networks_ok L F r_ij f_ij c2"
proof -
  have "slice_atoms c1 (features r_ij f_ij) = slice_atoms c2 (features r_ij f_ij)"
    "slice_atoms c1 r_ij = slice_atoms c2 r_ij"
    using assms(1-3) by (simp_all add: slice_atoms_def)
  then show ?thesis
    using assms(4) unfolding networks_ok_def by (cases "cutoff_network L") simp_all
qed

lemma filter_weights_ones:
  assumes r: "shape r_ij = [B, N, K]"
    and f: "shape f = [B, N, K, G]"
    and fc: "\<And>fs W. slice_atoms cutv f = Inr fs \<Longrightarrow> filter_network L fs = Inr W
                \<Longrightarrow> wf W \<and> shape W = butlast (shape fs) @ [F]"
  shows "filter_weights (L\<lparr>cutoff_network := Some ones_cutoff\<rparr>) r_ij f cutv
       = filter_weights (L\<lparr>cutoff_network := None\<rparr>) r_ij f cutv"
proof -
  define c where "c = py_stop cutv N"
  let ?fs = "mk [B, c, K, G] (entry f)"
  let ?rs = "mk [B, c, K] (entry r_ij)"
  let ?C = "mk [B, c, K] (\<lambda>idx. 1::real)"
  have s1: "slice_atoms cutv f = Inr ?fs" and s2: "slice_atoms cutv r_ij = Inr ?rs"
    using r f by (simp_all add: slice_atoms_shape c_def)
  show ?thesis
  proof (cases "filter_network L ?fs")
    case (Inl e)
    then show ?thesis
      using s1 by (simp add: filter_weights_def)
  next
    case (Inr W)
    then have W: "wf W" "shape W = [B, c, K, F]"
      using fc [OF s1 Inr] by simp_all
    have "binop (*) W (unsqueeze_last ?C)
        = Inr (mk ([B, c, K] @ [F]) (\<lambda>idx. entry W idx * entry ?C (butlast idx)))"
      by (rule binop_last1) (simp_all add: W)
    also have "mk ([B, c, K] @ [F]) (\<lambda>idx. entry W idx * entry ?C (butlast idx))
        = mk (shape W) (entry W)"
      unfolding W(2) append_Cons append_Nil
    proof (rule mk_cong)
      fix idx assume "inb [B, c, K, F] idx"
      then obtain b i k f where "idx = [b, i, k, f]" "b < B" "i < c" "k < K"
        by (rule inb4E)
      then show "entry W idx * entry ?C (butlast idx) = entry W idx"
        by (simp add: entry_mk)
    qed
    also have "\<dots> = W"
      using W(1) by (rule mk_entry)
    finally have "binop (*) W (unsqueeze_last ?C) = Inr W" .
    then show ?thesis
      using s1 s2 Inr by (simp add: filter_weights_def ones_cutoff_def)
  qed
qed

subsection \<open>The convolution\<close>

lemma cut_value_eq: "shape x = [B, N, n] \<Longrightarrow> cut_value x cutn = Inr (resolve_cut cutn N)"
  by (simp add: cut_value_def resolve_cut_def dim_size_def split: option.split)

lemma forward_filter:
  assumes "cut_value x cutn = Inr cutv"
    and "filter_weights L r_ij (features r_ij f_ij) cutv = Inr W"
  shows "forward L x r_ij neighbors pairwise_mask f_ij cutn
       = convolve (in2f L) (f2out L) (agg L) x neighbors pairwise_mask cutv W"
  using assms by (simp add: forward_def)

lemma convolve_cut_zero:
  assumes x: "shape x = [B, N, in_features D1]"
    and n: "shape neighbors = [Bn, Nn, Kn]"
    and e: "py_stop cutv Nn * Kn = 0"
  shows "convolve D1 D2 A x neighbors pairwise_mask cutv W = Inl InvalidView"
proof -
  have "\<exists>y. dense_forward D1 x = Inr y"
    using dense_forward_rank3 [OF x] by simp
  then show ?thesis
    using neighbor_gather_empty [OF n e] by (auto simp: convolve_def)
qed


lemma convolve_upto_mul:
  assumes x: "shape x = [B, N, in_features (in2f L)]"
    and n: "shape neighbors = [Bn, Nn, Kn]"
    and le: "Bn \<le> B"
    and nonneg: "0 \<le> cutv"
    and c: "c = py_stop cutv Nn" "0 < c"
    and pos: "0 < Bn" "0 < Kn"
    and nb: "valid_neighbors neighbors Bn c Kn N"
    and W: "wf W" "shape W = Bw # py_stop cutv Nw # rest"
  shows "convolve (in2f L) (f2out L) (agg L) x neighbors pairwise_mask cutv W
           = bind_err (binop (*) (gathered_features L x neighbors Bn c Kn) W) (\<lambda>P.
             bind_err (slice_atoms cutv pairwise_mask) (\<lambda>ms.
             bind_err (aggregate_forward (agg L) P ms) (dense_forward (f2out L))))"
proof -
  let ?F = "out_features (in2f L)"
  let ?y = "mk [B, N, ?F] (\<lambda>idx. dense_entry (in2f L) x [idx ! 0, idx ! 1] (idx ! 2))"
  let ?G = "mk [Bn, c, Kn, ?F]
              (\<lambda>idx. entry ?y [idx ! 0, nat (entry neighbors [idx ! 0, idx ! 1, idx ! 2]), idx ! 3])"
  have t1: "dense_forward (in2f L) x = Inr ?y"
    using x by (rule dense_forward_rank3)
  have t2: "neighbor_gather ?y neighbors cutv = Inr ?G"
    using _ n le c(1) pos(1) c(2) pos(2)
  proof (rule neighbor_gather_general)
    show "shape ?y = [B, N, ?F]" by simp
  next
    fix b i k assume "b < Bn" "i < c" "k < Kn"
    then show "0 \<le> entry neighbors [b, i, k] \<and> entry neighbors [b, i, k] < int N"
      using nb by (simp add: valid_neighbors_def)
  qed
  have idem: "py_stop cutv c = c"
    using c(1) nonneg by (simp add: py_stop_idem)
  have t3: "slice_atoms cutv ?G = Inr ?G"
    using _ _ idem by (rule slice_atoms_id) simp_all
  have "py_stop cutv (py_stop cutv Nw) = py_stop cutv Nw"
    using nonneg by (rule py_stop_idem)
  with W have t4: "slice_atoms cutv W = Inr W"
    by (rule slice_atoms_id)
  have G: "?G = gathered_features L x neighbors Bn c Kn"
    unfolding gathered_features_def
  proof (rule mk_cong)
    fix idx assume "inb [Bn, c, Kn, ?F] idx"
    then obtain b i k f where idx: "idx = [b, i, k, f]"
      and lt: "b < Bn" "i < c" "k < Kn" "f < ?F"
      by (rule inb4E)
    have "0 \<le> entry neighbors [b, i, k] \<and> entry neighbors [b, i, k] < int N"
      using nb lt by (simp add: valid_neighbors_def)
    then have "nat (entry neighbors [b, i, k]) < N"
      by linarith
    moreover have "b < B"
      using lt(1) le by simp
    ultimately have "entry ?y [b, nat (entry neighbors [b, i, k]), f]
        = projected L x b (nat (entry neighbors [b, i, k])) f"
      using lt by (simp add: entry_mk projected_def)
    moreover have "[b, i, k, f] ! 0 = b" "[b, i, k, f] ! 1 = i" "[b, i, k, f] ! 2 = k"
      "[b, i, k, f] ! 3 = f"
      by simp_all
    ultimately show "entry ?y [idx ! 0, nat (entry neighbors [idx ! 0, idx ! 1, idx ! 2]), idx ! 3]
        = projected L x (idx ! 0) (nat (entry neighbors [idx ! 0, idx ! 1, idx ! 2])) (idx ! 3)"
      by (simp only: idx)
  qed
  have t2': "neighbor_gather ?y neighbors cutv = Inr (gathered_features L x neighbors Bn c Kn)"
    and t3': "slice_atoms cutv (gathered_features L x neighbors Bn c Kn)
        = Inr (gathered_features L x neighbors Bn c Kn)"
    using t2 t3 by (simp_all only: G)
  show ?thesis
    unfolding convolve_def by (simp only: t1 t2' t3' t4 bind_err_Inr)
qed

lemma convolve_upto_agg:
  assumes x: "shape x = [B, N, in_features (in2f L)]"
    and n: "shape neighbors = [B, N, K]"
    and nonneg: "0 \<le> cutv"
    and c: "c = py_stop cutv N" "0 < c"
    and pos: "0 < B" "0 < K"
    and nb: "valid_neighbors neighbors B c K N"
    and W: "wf W" "shape W = [B, c, K, out_features (in2f L)]"
  shows "convolve (in2f L) (f2out L) (agg L) x neighbors pairwise_mask cutv W
           = bind_err (slice_atoms cutv pairwise_mask) (\<lambda>ms.
             bind_err (aggregate_forward (agg L) (weighted_neighbors L x neighbors W B c K) ms)
               (dense_forward (f2out L)))"
proof -
  let ?G = "gathered_features L x neighbors B c K"
  have W': "shape W = B # py_stop cutv N # [K, out_features (in2f L)]"
    using W(2) c(1) by simp
  have "binop (*) ?G W
      = Inr (mk [B, c, K, out_features (in2f L)] (\<lambda>idx. entry ?G idx * entry W idx))"
    by (rule binop_same) (simp_all add: W(2) gathered_features_def)
  also have "mk [B, c, K, out_features (in2f L)] (\<lambda>idx. entry ?G idx * entry W idx)
      = weighted_neighbors L x neighbors W B c K"
    unfolding weighted_neighbors_def
  proof (rule mk_cong)
    fix idx assume i: "inb [B, c, K, out_features (in2f L)] idx"
    show "entry ?G idx * entry W idx
        = projected L x (idx ! 0) (nat (entry neighbors [idx ! 0, idx ! 1, idx ! 2])) (idx ! 3)
          * entry W idx"
      using i by (simp add: gathered_features_def entry_mk)
  qed
  finally have m: "binop (*) ?G W = Inr (weighted_neighbors L x neighbors W B c K)" .
  show ?thesis
    by (simp only: convolve_upto_mul [OF x n order_refl nonneg c pos nb W(1) W'] m bind_err_Inr)
qed

lemma convolve_eq:
  assumes L: "valid_layer L n_in F n_out"
    and V: "valid_inputs x r_ij neighbors pairwise_mask f_ij B N K n_in"
    and nonneg: "0 \<le> cutv"
    and c: "c = py_stop cutv N" "0 < c"
    and nb: "valid_neighbors neighbors B c K N"
    and W: "wf W" "shape W = [B, c, K, F]"
  shows "convolve (in2f L) (f2out L) (agg L) x neighbors pairwise_mask cutv W
           = Inr (conv_out L x neighbors pairwise_mask W B c K)"
proof -
  let ?P = "weighted_neighbors L x neighbors W B c K"
  let ?M = "mk [B, c, K] (entry pairwise_mask)"
  let ?A = "mk [B, c, F]
              (\<lambda>idx. if mean (agg L)
                      then agg_sum ?P ?M K (idx ! 0) (idx ! 1) (idx ! 2)
                           / agg_count ?M K (idx ! 0) (idx ! 1)
                      else agg_sum ?P ?M K (idx ! 0) (idx ! 1) (idx ! 2))"
  have dims: "out_features (in2f L) = F" "in_features (f2out L) = F" "axis (agg L) = 2"
    and n_in: "in_features (in2f L) = n_in"
    using L by (simp_all add: valid_layer_def)
  have shapes: "shape x = [B, N, n_in]" "shape neighbors = [B, N, K]"
    "shape pairwise_mask = [B, N, K]" and pos: "0 < B" "0 < K"
    using V by (simp_all add: valid_inputs_def)
  have t6: "slice_atoms cutv pairwise_mask = Inr ?M"
    using shapes(3) c(1) by (simp add: slice_atoms_shape)
  have t7: "aggregate_forward (agg L) ?P ?M = Inr ?A"
    by (rule aggregate_forward_eq) (simp_all add: dims weighted_neighbors_def)
  have t8: "dense_forward (f2out L) ?A
      = Inr (mk [B, c, out_features (f2out L)]
               (\<lambda>idx. dense_entry (f2out L) ?A [idx ! 0, idx ! 1] (idx ! 2)))"
    by (rule dense_forward_rank3) (simp add: dims)
  have A: "?A = mk [B, c, F] (\<lambda>j. conv_agg L x neighbors pairwise_mask W K (j ! 0) (j ! 1) (j ! 2))"
  proof (rule mk_cong)
    fix idx assume "inb [B, c, F] idx"
    then obtain b i f where idx: "idx = [b, i, f]" and lt: "b < B" "i < c" "f < F"
      by (rule inb3E)
    have tm: "entry ?P [b, i, k, f] * entry ?M [b, i, k]
        = projected L x b (nat (entry neighbors [b, i, k])) f
          * entry W [b, i, k, f] * entry pairwise_mask [b, i, k]" if "k < K" for k
      using lt that by (simp add: entry_mk weighted_neighbors_def dims)
    have sum: "agg_sum ?P ?M K b i f
        = sum_list (map (\<lambda>k. projected L x b (nat (entry neighbors [b, i, k])) f
                                * entry W [b, i, k, f] * entry pairwise_mask [b, i, k]) [0..<K])"
      unfolding agg_sum_def
    proof (rule arg_cong [where f = sum_list], rule map_cong [OF refl])
      fix k assume "k \<in> set [0..<K]"
      then have "k < K" by simp
      then show "entry ?P [b, i, k, f] * entry ?M [b, i, k]
        = projected L x b (nat (entry neighbors [b, i, k])) f
          * entry W [b, i, k, f] * entry pairwise_mask [b, i, k]"
        by (rule tm)
    qed
    have "filter (\<lambda>k. entry ?M [b, i, k] \<noteq> 0) [0..<K]
        = filter (\<lambda>k. entry pairwise_mask [b, i, k] \<noteq> 0) [0..<K]"
      using lt by (intro filter_cong) (simp_all add: entry_mk)
    then have cnt: "agg_count ?M K b i = agg_count pairwise_mask K b i"
      by (simp only: agg_count_def)
    have "(if mean (agg L)
           then agg_sum ?P ?M K b i f / agg_count ?M K b i
           else agg_sum ?P ?M K b i f)
        = conv_agg L x neighbors pairwise_mask W K b i f"
      by (simp only: conv_agg_def sum cnt Let_def)
    moreover have "[b, i, f] ! 0 = b" "[b, i, f] ! 1 = i" "[b, i, f] ! 2 = f"
      by simp_all
    ultimately show "(if mean (agg L)
           then agg_sum ?P ?M K (idx ! 0) (idx ! 1) (idx ! 2) / agg_count ?M K (idx ! 0) (idx ! 1)
           else agg_sum ?P ?M K (idx ! 0) (idx ! 1) (idx ! 2))
        = conv_agg L x neighbors pairwise_mask W K (idx ! 0) (idx ! 1) (idx ! 2)"
      by (simp only: idx)
  qed
  have x': "shape x = [B, N, in_features (in2f L)]"
    and W': "shape W = [B, c, K, out_features (in2f L)]"
    using shapes(1) W(2) by (simp_all add: n_in dims)
  have "convolve (in2f L) (f2out L) (agg L) x neighbors pairwise_mask cutv W
      = Inr (mk [B, c, out_features (f2out L)]
               (\<lambda>idx. dense_entry (f2out L) ?A [idx ! 0, idx ! 1] (idx ! 2)))"
    by (simp only: convolve_upto_agg [OF x' shapes(2) nonneg c pos nb W(1) W'] t6 t7 t8
        bind_err_Inr)
  then show ?thesis
    by (simp only: A conv_out_def dims)
qed

lemma shape_conv_out [simp]:
  "shape (conv_out L x neighbors msk W B c K) = [B, c, out_features (f2out L)]"
  and wf_conv_out [simp]: "wf (conv_out L x neighbors msk W B c K)"
  by (simp_all add: conv_out_def)

lemma forward_eq:
  assumes L: "valid_layer L n_in F n_out"
    and V: "valid_inputs x r_ij neighbors pairwise_mask f_ij B N K n_in"
    and cutv: "cutv = resolve_cut cutn N" "0 \<le> cutv"
    and c: "c = py_stop cutv N" "0 < c"
    and nb: "valid_neighbors neighbors B c K N"
    and W: "filter_weights L r_ij (features r_ij f_ij) cutv = Inr W"
           "wf W" "shape W = [B, c, K, F]"
  shows "forward L x r_ij neighbors pairwise_mask f_ij cutn
           = Inr (conv_out L x neighbors pairwise_mask W B c K)"
proof -
  have "shape x = [B, N, n_in]"
    using V by (simp add: valid_inputs_def)
  then have "cut_value x cutn = Inr cutv"
    using cutv(1) by (simp add: cut_value_eq)
  then have "forward L x r_ij neighbors pairwise_mask f_ij cutn
      = convolve (in2f L) (f2out L) (agg L) x neighbors pairwise_mask cutv W"
    using W(1) by (rule forward_filter)
  then show ?thesis
    using convolve_eq [OF L V cutv(2) c nb W(2,3)] by simp
qed

lemma forward_cut_zero:
  assumes L: "valid_layer L n_in F n_out"
    and V: "valid_inputs x r_ij neighbors pairwise_mask f_ij B N K n_in"
    and cutv: "cutv = resolve_cut cutn N"
    and z: "py_stop cutv N = 0"
    and W: "filter_weights L r_ij (features r_ij f_ij) cutv = Inr W"
  shows "forward L x r_ij neighbors pairwise_mask f_ij cutn = Inl InvalidView"
proof -
  have x: "shape x = [B, N, in_features (in2f L)]" and n: "shape neighbors = [B, N, K]"
    using L V by (simp_all add: valid_inputs_def valid_layer_def)
  then have "cut_value x cutn = Inr cutv"
    using cutv by (simp add: cut_value_eq)
  then have "forward L x r_ij neighbors pairwise_mask f_ij cutn
      = convolve (in2f L) (f2out L) (agg L) x neighbors pairwise_mask cutv W"
    using W by (rule forward_filter)
  moreover have "py_stop cutv N * K = 0"
    using z by simp
  ultimately show ?thesis
    using convolve_cut_zero [OF x n] by simp
qed

subsection \<open>Truncation\<close>

lemma conv_agg_cong:
  assumes "\<And>k. k < K \<Longrightarrow> entry W [b, i, k, f] = entry W' [b, i, k, f]"
  shows "conv_agg L x neighbors msk W K b i f = conv_agg L x neighbors msk W' K b i f"
proof -
  have "map (\<lambda>k. projected L x b (nat (entry neighbors [b, i, k])) f
                   * entry W [b, i, k, f] * entry msk [b, i, k]) [0..<K]
      = map (\<lambda>k. projected L x b (nat (entry neighbors [b, i, k])) f
                   * entry W' [b, i, k, f] * entry msk [b, i, k]) [0..<K]"
    by (rule map_cong [OF refl]) (simp add: assms)
  then show ?thesis
    by (simp only: conv_agg_def)
qed

lemma conv_out_slice:
  assumes m: "m \<le> N"
    and W: "\<And>b i k f. b < B \<Longrightarrow> i < m \<Longrightarrow> k < K \<Longrightarrow> f < in_features (f2out L) \<Longrightarrow>
              entry W' [b, i, k, f] = entry W [b, i, k, f]"
  shows "slice_atoms (int m) (conv_out L x neighbors msk W B N K)
       = Inr (conv_out L x neighbors msk W' B m K)"
proof -
  let ?F = "in_features (f2out L)"
  let ?full = "conv_out L x neighbors msk W B N K"
  let ?aN = "mk [B, N, ?F] (\<lambda>j. conv_agg L x neighbors msk W K (j ! 0) (j ! 1) (j ! 2))"
  let ?am = "mk [B, m, ?F] (\<lambda>j. conv_agg L x neighbors msk W' K (j ! 0) (j ! 1) (j ! 2))"
  have "slice_atoms (int m) ?full = Inr (mk [B, m, out_features (f2out L)] (entry ?full))"
    using m by (simp add: slice_atoms_def min_def)
  also have "mk [B, m, out_features (f2out L)] (entry ?full) = conv_out L x neighbors msk W' B m K"
    unfolding conv_out_def [of L x neighbors msk W' B m K]
  proof (rule mk_cong)
    fix idx assume "inb [B, m, out_features (f2out L)] idx"
    then obtain b i oc where idx: "idx = [b, i, oc]"
      and lt: "b < B" "i < m" "oc < out_features (f2out L)"
      by (rule inb3E)
    have iN: "i < N" using lt(2) m by simp
    have "entry ?full [b, i, oc] = dense_entry (f2out L) ?aN [b, i] oc"
      using lt iN by (simp add: conv_out_def entry_mk)
    also have "\<dots> = dense_entry (f2out L) ?am [b, i] oc"
    proof (rule dense_entry_cong)
      fix j assume j: "j < ?F"
      have "conv_agg L x neighbors msk W K b i j = conv_agg L x neighbors msk W' K b i j"
        by (rule conv_agg_cong) (simp add: W lt j)
      then show "entry ?aN ([b, i] @ [j]) = entry ?am ([b, i] @ [j])"
        using lt iN j by (simp add: entry_mk)
    qed
    finally have "entry ?full [b, i, oc] = dense_entry (f2out L) ?am [b, i] oc" .
    moreover have "[b, i, oc] ! 0 = b" "[b, i, oc] ! 1 = i" "[b, i, oc] ! 2 = oc"
      by simp_all
    ultimately show "entry ?full idx = dense_entry (f2out L) ?am [idx ! 0, idx ! 1] (idx ! 2)"
      by (simp only: idx)
  qed
  finally show ?thesis .
qed

lemma atomwise_apply:
  assumes aw: "atomwise r net"
    and t: "shape t = b # n # rest" "length (shape t) = r"
    and m: "m \<le> n"
    and res: "net (mk (b # n # rest) (entry t)) = Inr W"
  shows "net (mk (b # m # rest) (entry t)) = slice_atoms (int m) W"
proof -
  let ?tn = "mk (b # n # rest) (entry t)"
  have "wf ?tn \<and> length (shape ?tn) = r \<longrightarrow>
      bind_err (slice_atoms (int m) ?tn) net = bind_err (net ?tn) (slice_atoms (int m))"
    using aw unfolding atomwise_def by blast
  moreover have "length (shape ?tn) = r"
    using t by simp
  ultimately have "bind_err (slice_atoms (int m) ?tn) net = bind_err (net ?tn) (slice_atoms (int m))"
    by simp
  moreover have "slice_atoms (int m) ?tn = Inr (mk (b # m # rest) (entry t))"
    using t(1) m by (rule slice_slice)
  ultimately show ?thesis
    using res by simp
qed

lemma filter_weights_atomwise:
  assumes ok: "networks_ok L F r_ij f_ij (int N)"
    and V: "valid_inputs x r_ij neighbors pairwise_mask f_ij B N K n_in"
    and m: "m \<le> N"
    and aw: "atomwise 4 (filter_network L)"
      "case cutoff_network L of None \<Rightarrow> True | Some cnet \<Rightarrow> atomwise 3 cnet"
  shows "\<exists>W. filter_weights L r_ij
                (features r_ij f_ij) (int N) = Inr W
             \<and> wf W \<and> shape W = [B, N, K, F]
             \<and> filter_weights L r_ij
                  (features r_ij f_ij) (int m)
                = Inr (mk [B, m, K, F] (entry W))"
proof -
  let ?f = "features r_ij f_ij"
  obtain G where G: "shape ?f = [B, N, K, G]"
    using features_shape [OF V] by blast
  have r: "shape r_ij = [B, N, K]"
    using V by (simp add: valid_inputs_def)
  let ?fN = "mk [B, N, K, G] (entry ?f)"
  let ?fm = "mk [B, m, K, G] (entry ?f)"
  have sN: "slice_atoms (int N) ?f = Inr ?fN" and sm: "slice_atoms (int m) ?f = Inr ?fm"
    using G m by (simp_all add: slice_atoms_shape min_def)
  have "filter_contract_at (filter_network L) F ?fN"
    using ok sN by (simp add: networks_ok_def)
  then obtain W0 where W0: "filter_network L ?fN = Inr W0" "wf W0" "shape W0 = [B, N, K, F]"
    by (auto simp: filter_contract_at_def)
  have "filter_network L ?fm = slice_atoms (int m) W0"
    using aw(1) G _ m W0(1) by (rule atomwise_apply) (simp add: G)
  then have Wm: "filter_network L ?fm = Inr (mk [B, m, K, F] (entry W0))"
    using W0(3) m by (simp add: slice_atoms_shape min_def)
  show ?thesis
  proof (cases "cutoff_network L")
    case None
    then show ?thesis
      using sN sm W0 Wm by (simp add: filter_weights_def)
  next
    case (Some cnet)
    let ?rN = "mk [B, N, K] (entry r_ij)"
    let ?rm = "mk [B, m, K] (entry r_ij)"
    have rN: "slice_atoms (int N) r_ij = Inr ?rN" and rm: "slice_atoms (int m) r_ij = Inr ?rm"
      using r m by (simp_all add: slice_atoms_shape min_def)
    have "cutoff_contract_at cnet ?rN"
      using ok rN Some by (simp add: networks_ok_def)
    then obtain C where C: "cnet ?rN = Inr C" "shape C = [B, N, K]"
      by (auto simp: cutoff_contract_at_def)
    have "atomwise 3 cnet"
      using aw(2) Some by simp
    then have "cnet ?rm = slice_atoms (int m) C"
      using r _ m C(1) by (rule atomwise_apply) (simp add: r)
    then have Cm: "cnet ?rm = Inr (mk [B, m, K] (entry C))"
      using C(2) m by (simp add: slice_atoms_shape min_def)
    let ?WN = "mk [B, N, K, F] (\<lambda>idx. entry W0 idx * entry C (butlast idx))"
    let ?Wm = "mk [B, m, K, F] (\<lambda>idx. entry (mk [B, m, K, F] (entry W0)) idx
                                        * entry (mk [B, m, K] (entry C)) (butlast idx))"
    have bN: "binop (*) W0 (unsqueeze_last C) = Inr ?WN"
      using binop_last1 [of W0 "[B, N, K]" F C "(*)"] W0(3) C(2) by simp
    have bm: "binop (*) (mk [B, m, K, F] (entry W0)) (unsqueeze_last (mk [B, m, K] (entry C)))
        = Inr ?Wm"
      using binop_last1 [of "mk [B, m, K, F] (entry W0)" "[B, m, K]" F
          "mk [B, m, K] (entry C)" "(*)"] by simp
    have "?Wm = mk [B, m, K, F] (entry ?WN)"
    proof (rule mk_cong)
      fix idx assume "inb [B, m, K, F] idx"
      then obtain b i k f where idx: "idx = [b, i, k, f]"
        and lt: "b < B" "i < m" "k < K" "f < F"
        by (rule inb4E)
      have iN: "i < N" using lt(2) m by simp
      show "entry (mk [B, m, K, F] (entry W0)) idx * entry (mk [B, m, K] (entry C)) (butlast idx)
          = entry ?WN idx"
        using lt iN by (simp add: idx entry_mk)
    qed
    then have bm': "binop (*) (mk [B, m, K, F] (entry W0)) (unsqueeze_last (mk [B, m, K] (entry C)))
        = Inr (mk [B, m, K, F] (entry ?WN))"
      using bm by simp
    have "filter_weights L r_ij ?f (int N) = Inr ?WN"
      using sN rN W0(1) C(1) bN Some by (simp add: filter_weights_def)
    moreover have "filter_weights L r_ij ?f (int m) = Inr (mk [B, m, K, F] (entry ?WN))"
      using sm rm Wm Cm bm' Some by (simp add: filter_weights_def)
    ultimately show ?thesis
      by (intro exI [where x = ?WN]) simp
  qed
qed

subsection \<open>\<open>Dense\<close> networks and the example\<close>

lemma dense_contract_at:
  assumes "shape fs \<noteq> []" "last (shape fs) = in_features D"
  shows "filter_contract_at (dense_forward D) (out_features D) fs"
  using assms by (simp add: filter_contract_at_def dense_forward_def)

lemma dense_atomwise: "atomwise 4 (dense_forward D)"
  unfolding atomwise_def
proof (intro allI impI)
  fix t :: "real tensor" and m :: nat
  assume "wf t \<and> length (shape t) = 4"
  then obtain b n k g where t: "shape t = [b, n, k, g]"
    by (auto simp: length_Suc_conv numeral_eq_Suc)
  let ?c = "min m n"
  let ?ts = "mk [b, ?c, k, g] (entry t)"
  have s: "slice_atoms (int m) t = Inr ?ts"
    using t by (simp add: slice_atoms_def)
  show "bind_err (slice_atoms (int m) t) (dense_forward D)
      = bind_err (dense_forward D t) (slice_atoms (int m))"
  proof (cases "g = in_features D")
    case False
    then show ?thesis
      using t s by (simp add: dense_forward_def)
  next
    case True
    let ?full = "mk [b, n, k, out_features D] (\<lambda>idx. dense_entry D t (butlast idx) (last idx))"
    have "mk [b, ?c, k, out_features D] (\<lambda>idx. dense_entry D ?ts (butlast idx) (last idx))
        = mk [b, ?c, k, out_features D] (entry ?full)"
    proof (rule mk_cong)
      fix idx assume "inb [b, ?c, k, out_features D] idx"
      then obtain bb i kk oc where idx: "idx = [bb, i, kk, oc]"
        and lt: "bb < b" "i < ?c" "kk < k" "oc < out_features D"
        by (rule inb4E)
      have "dense_entry D ?ts [bb, i, kk] oc = dense_entry D t [bb, i, kk] oc"
      proof (rule dense_entry_cong)
        fix j assume "j < in_features D"
        then show "entry ?ts ([bb, i, kk] @ [j]) = entry t ([bb, i, kk] @ [j])"
          using lt True by (simp add: entry_mk)
      qed
      moreover have "entry ?full [bb, i, kk, oc] = dense_entry D t [bb, i, kk] oc"
        using lt by (simp add: entry_mk)
      ultimately show "dense_entry D ?ts (butlast idx) (last idx) = entry ?full idx"
        by (simp add: idx)
    qed
    then show ?thesis
      using t s True by (simp add: dense_forward_def slice_atoms_def)
  qed
qed

lemma ex_networks_ok: "networks_ok ex_layer 2 ex_r None cutv"
proof -
  have "filter_contract_at (dense_forward ex_filter) 2 fs"
    if "slice_atoms cutv (unsqueeze_last ex_r) = Inr fs" for fs
  proof -
    from that have "shape fs = [1, py_stop cutv 3, 2, 1]"
      by (auto simp: slice_atoms_def unsqueeze_last_def ex_r_def)
    then show ?thesis
      using dense_contract_at [of fs ex_filter] by (simp add: ex_filter_def)
  qed
  then show ?thesis
    by (simp add: networks_ok_def ex_layer_def CFConv_def features_def)
qed

lemma ex_valid_layer: "valid_layer ex_layer 2 2 1"
  by (simp add: valid_layer_def ex_layer_def CFConv_def)

lemma ex_valid_inputs: "valid_inputs ex_x ex_r ex_neighbors ex_mask None 1 3 2 2"
  by (simp add: valid_inputs_def ex_x_def ex_r_def ex_neighbors_def ex_mask_def wf_def)

text \<open>The example's neighbour indices are atom indices.\<close>

lemma ex_valid_neighbors: "valid_neighbors ex_neighbors 1 3 2 3"
  by (simp add: valid_neighbors_def ex_neighbors_def entry_def less_Suc_eq numeral_3_eq_3 numeral_2_eq_2 all_conj_distrib)

subsection \<open>Calls and the state of the networks\<close>





section \<open>The claims\<close>

text \<open>Claim C1 (output shape), as stated, fails for a truncation length beyond the atom
  count: with three atoms and \<open>cut = 5\<close> the result has three rows, not five.\<close>

theorem cut_five_gives_three_rows:
  "forward ex_layer ex_x ex_r ex_neighbors ex_mask None (Some 5)
     = Inr \<lparr>shape = [1, 3, 1], elems = [18, 14, 3]\<rparr>"
  by code_simp

text \<open>Claim C1, amended.  For a valid layer, valid inputs (tensors of consistent shapes for
  \<open>B\<close> molecules, \<open>N\<close> atoms and \<open>K\<close> neighbour slots, none of them empty, with neighbour
  indices that are atom indices), networks that keep their contract on the slices they
  are passed, and a truncation length \<open>cut \<ge> 0\<close>, where an omitted \<open>cut\<close> counts as \<open>N\<close>:
  for \<open>cut = 0\<close> the call raises (the view of the empty neighbour slice is refused);
  otherwise \<open>forward\<close> returns a tensor of shape \<open>(B, min(cut, N), n_out)\<close>, which is
  \<open>(B, cut, n_out)\<close> whenever \<open>cut \<le> N\<close>.\<close>

theorem forward_shape:
  assumes L: "valid_layer L n_in n_filters n_out"
    and V: "valid_inputs x r_ij neighbors pairwise_mask f_ij B N K n_in"
    and cutv: "cutv = resolve_cut cutn N" "0 \<le> cutv"
    and ok: "networks_ok L n_filters r_ij f_ij cutv"
    and nb: "valid_neighbors neighbors B (min (nat cutv) N) K N"
  shows "if cutv = 0
         then forward L x r_ij neighbors pairwise_mask f_ij cutn = Inl InvalidView
         else (\<exists>out. forward L x r_ij neighbors pairwise_mask f_ij cutn = Inr out \<and> wf out \<and>
                     shape out = [B, min (nat cutv) N, n_out])"
proof -
  define c where "c = min (nat cutv) N"
  have c': "c = py_stop cutv N"
    using cutv(2) by (simp add: c_def py_stop_def)
  have r: "shape r_ij = [B, N, K]" and N: "0 < N"
    using V by (simp_all add: valid_inputs_def)
  obtain G where G: "shape (features r_ij f_ij) = [B, N, K, G]"
    using features_shape [OF V] by blast
  obtain W where W: "filter_weights L r_ij (features r_ij f_ij) cutv = Inr W"
      "wf W" "shape W = [B, c, K, n_filters]"
    using filter_weights_ok [OF ok G r c'] by blast
  show ?thesis
  proof (cases "cutv = 0")
    case True
    then have z: "py_stop cutv N = 0"
      by (simp add: py_stop_def)
    have "forward L x r_ij neighbors pairwise_mask f_ij cutn = Inl InvalidView"
      using L V cutv(1) z W(1) by (rule forward_cut_zero)
    then show ?thesis using True by simp
  next
    case False
    then have pos: "0 < c"
      using cutv(2) N by (simp add: c_def)
    have "forward L x r_ij neighbors pairwise_mask f_ij cutn
        = Inr (conv_out L x neighbors pairwise_mask W B c K)"
      using L V cutv c' pos nb [folded c_def] W by (rule forward_eq)
    moreover have "out_features (f2out L) = n_out"
      using L by (simp add: valid_layer_def)
    ultimately show ?thesis
      using False by (simp add: c_def)
  qed
qed

theorem forward_shape_witness:
  "if (2::int) = 0
   then forward ex_layer ex_x ex_r ex_neighbors ex_mask None (Some 2) = Inl InvalidView
   else (\<exists>out. forward ex_layer ex_x ex_r ex_neighbors ex_mask None (Some 2) = Inr out \<and> wf out \<and>
               shape out = [1, min (nat 2) 3, 1])"
proof -
  have c: "(2::int) = resolve_cut (Some 2) 3" "(0::int) \<le> 2"
    by (simp_all add: resolve_cut_def)
  have nb: "valid_neighbors ex_neighbors 1 (min (nat 2) 3) 2 3"
    using ex_valid_neighbors by (simp add: valid_neighbors_def)
  show ?thesis
    by (rule forward_shape [OF ex_valid_layer ex_valid_inputs c ex_networks_ok nb])
qed

text \<open>Claim C2 (truncation consistency), as stated, fails at \<open>m = 0\<close>: the slice of the
  neighbour tensor is empty, and \<open>view(-1, 0, 1)\<close> on line 68 cannot infer the first size,
  so the call raises, while the first 0 rows of the full result are an empty tensor.\<close>

theorem cut_zero_raises:
  "forward ex_layer ex_x ex_r ex_neighbors ex_mask None (Some 0) = Inl InvalidView \<and>
   bind_err (forward ex_layer ex_x ex_r ex_neighbors ex_mask None None) (slice_atoms 0)
     = Inr \<lparr>shape = [1, 0, 1], elems = []\<rparr>"
  by code_simp

text \<open>It also fails for a filter network that does not act atom by atom: with
  \<open>count_network\<close>, the first two rows of the full result differ from the result for
  \<open>cut = 2\<close>.\<close>

lemma count_network_not_truncation_consistent:
  "forward (ex_layer\<lparr>filter_network := count_network 2\<rparr>) ex_x ex_r ex_neighbors ex_mask None (Some 2)
     = Inr \<lparr>shape = [1, 2, 1], elems = [36, 28]\<rparr> \<and>
   bind_err (forward (ex_layer\<lparr>filter_network := count_network 2\<rparr>) ex_x ex_r ex_neighbors ex_mask
               None None) (slice_atoms 2)
     = Inr \<lparr>shape = [1, 2, 1], elems = [54, 42]\<rparr>"
  by code_simp

text \<open>Claim C2, amended.  Take a valid layer whose filter network and cutoff network act
  atom by atom and keep their contract on the full distance tensors, valid inputs, and
  \<open>m \<le> N\<close>.  The call without \<open>cut\<close> returns a tensor; for \<open>m \<ge> 1\<close> the call with
  \<open>cut = m\<close> returns its first \<open>m\<close> rows along the atom axis, and for \<open>m = 0\<close> the call
  raises.\<close>

theorem truncation_consistency:
  assumes L: "valid_layer L n_in n_filters n_out"
    and V: "valid_inputs x r_ij neighbors pairwise_mask f_ij B N K n_in"
    and m: "m \<le> N"
    and nb: "valid_neighbors neighbors B N K N"
    and ok: "networks_ok L n_filters r_ij f_ij (int N)"
    and aw: "atomwise 4 (filter_network L)"
      "case cutoff_network L of None \<Rightarrow> True | Some cnet \<Rightarrow> atomwise 3 cnet"
  shows "\<exists>full. forward L x r_ij neighbors pairwise_mask f_ij None = Inr full \<and>
                (if m = 0
                 then forward L x r_ij neighbors pairwise_mask f_ij (Some 0) = Inl InvalidView
                 else forward L x r_ij neighbors pairwise_mask f_ij (Some (int m))
                        = slice_atoms (int m) full)"
proof -
  let ?f = "features r_ij f_ij"
  obtain W where W: "filter_weights L r_ij ?f (int N) = Inr W" "wf W"
      "shape W = [B, N, K, n_filters]"
    and Wm: "filter_weights L r_ij ?f (int m) = Inr (mk [B, m, K, n_filters] (entry W))"
    using filter_weights_atomwise [OF ok V m aw] by blast
  let ?Wm = "mk [B, m, K, n_filters] (entry W)"
  have N: "0 < N"
    using V by (simp add: valid_inputs_def)
  have F: "in_features (f2out L) = n_filters"
    using L by (simp add: valid_layer_def)
  have full: "forward L x r_ij neighbors pairwise_mask f_ij None
      = Inr (conv_out L x neighbors pairwise_mask W B N K)"
    using L V _ _ _ N nb W
  proof (rule forward_eq)
    show "int N = resolve_cut None N" by (simp add: resolve_cut_def)
    show "0 \<le> int N" by simp
    show "N = py_stop (int N) N" by simp
  qed
  have cm: "int m = resolve_cut (Some (int m)) N"
    by (simp add: resolve_cut_def)
  show ?thesis
  proof (cases "m = 0")
    case True
    have "forward L x r_ij neighbors pairwise_mask f_ij (Some (int m)) = Inl InvalidView"
      using L V cm _ Wm by (rule forward_cut_zero) (simp add: True py_stop_def)
    then show ?thesis
      using full True by simp
  next
    case False
    have nbm: "valid_neighbors neighbors B m K N"
      using nb m by (simp add: valid_neighbors_def)
    have part: "forward L x r_ij neighbors pairwise_mask f_ij (Some (int m))
        = Inr (conv_out L x neighbors pairwise_mask ?Wm B m K)"
      using L V cm _ _ _ nbm Wm
    proof (rule forward_eq)
      show "0 \<le> int m" by simp
      show "m = py_stop (int m) N" using m by simp
      show "0 < m" using False by simp
    qed simp_all
    have "slice_atoms (int m) (conv_out L x neighbors pairwise_mask W B N K)
        = Inr (conv_out L x neighbors pairwise_mask ?Wm B m K)"
      using m
    proof (rule conv_out_slice)
      fix b i k f
      assume "b < B" "i < m" "k < K" "f < in_features (f2out L)"
      then show "entry ?Wm [b, i, k, f] = entry W [b, i, k, f]"
        by (simp add: entry_mk F)
    qed
    then show ?thesis
      using full part False by simp
  qed
qed

theorem truncation_consistency_witness:
  "\<exists>full. forward ex_layer ex_x ex_r ex_neighbors ex_mask None None = Inr full \<and>
          (if (2::nat) = 0
           then forward ex_layer ex_x ex_r ex_neighbors ex_mask None (Some 0) = Inl InvalidView
           else forward ex_layer ex_x ex_r ex_neighbors ex_mask None (Some (int 2))
                  = slice_atoms (int 2) full)"
proof -
  have m: "(2::nat) \<le> 3"
    by simp
  have aw: "atomwise 4 (filter_network ex_layer)"
    "case cutoff_network ex_layer of None \<Rightarrow> True | Some cnet \<Rightarrow> atomwise 3 cnet"
    by (simp_all add: ex_layer_def CFConv_def dense_atomwise)
  show ?thesis
    by (rule truncation_consistency [OF ex_valid_layer ex_valid_inputs m ex_valid_neighbors
          ex_networks_ok aw])
qed

text \<open>Claim C3 (mean mode).  Let the mask row of atom \<open>i\<close> in batch \<open>b\<close> hold zeros and ones
  only, \<open>n\<close> of them ones.  The divisor of mean mode at that atom is at least 1, so no
  division by zero occurs; the mean-mode aggregate is the sum-mode aggregate divided by
  \<open>n\<close> when \<open>n > 0\<close>, and the zero vector when \<open>n = 0\<close>.\<close>

theorem mean_mode_aggregate:
  assumes "shape inp = [B, c, K, F]" and "shape msk = [B, c, K]"
    and "axis A = 2"
    and "b < B" "i < c"
    and "\<forall>k<K. entry msk [b, i, k] = 0 \<or> entry msk [b, i, k] = 1"
    and "n = length (filter (\<lambda>k. entry msk [b, i, k] = 1) [0..<K])"
  shows "\<exists>S M. aggregate_forward (A\<lparr>mean := False\<rparr>) inp msk = Inr S \<and>
               aggregate_forward (A\<lparr>mean := True\<rparr>) inp msk = Inr M \<and>
               1 \<le> entry (neighbor_count 2 msk) [b, i, 0] \<and>
               (\<forall>f<F. entry M [b, i, f] = (if n = 0 then 0 else entry S [b, i, f] / real n))"
proof -
  let ?S = "mk [B, c, F] (\<lambda>idx. agg_sum inp msk K (idx ! 0) (idx ! 1) (idx ! 2))"
  let ?M = "mk [B, c, F] (\<lambda>idx. agg_sum inp msk K (idx ! 0) (idx ! 1) (idx ! 2)
                                 / agg_count msk K (idx ! 0) (idx ! 1))"
  have S: "aggregate_forward (A\<lparr>mean := False\<rparr>) inp msk = Inr ?S"
    using aggregate_forward_eq [OF assms(1,2), of "A\<lparr>mean := False\<rparr>"] assms(3) by simp
  have M: "aggregate_forward (A\<lparr>mean := True\<rparr>) inp msk = Inr ?M"
    using aggregate_forward_eq [OF assms(1,2), of "A\<lparr>mean := True\<rparr>"] assms(3) by simp
  have "filter (\<lambda>k. entry msk [b, i, k] \<noteq> 0) [0..<K]
      = filter (\<lambda>k. entry msk [b, i, k] = 1) [0..<K]"
    using assms(6) by (intro filter_cong) auto
  then have cnt: "agg_count msk K b i = max 1 (real n)"
    by (simp only: agg_count_def assms(7))
  have "entry (neighbor_count 2 msk) [b, i, 0] = agg_count msk K b i"
    using assms(4,5) by (simp add: neighbor_count_rank3 [OF assms(2)] entry_mk)
  then have div: "1 \<le> entry (neighbor_count 2 msk) [b, i, 0]"
    by (simp add: agg_count_ge1)
  have "entry ?M [b, i, f] = (if n = 0 then 0 else entry ?S [b, i, f] / real n)" if "f < F" for f
  proof (cases "n = 0")
    case True
    then have "filter (\<lambda>k. entry msk [b, i, k] = 1) [0..<K] = []"
      using assms(7) by simp
    then have "\<forall>k<K. entry msk [b, i, k] \<noteq> 1"
      by (simp add: filter_empty_conv)
    then have "agg_sum inp msk K b i f = 0"
      using assms(6) by (intro agg_sum_masked_zero) auto
    then show ?thesis
      using True that assms(4,5) by (simp add: entry_mk)
  next
    case False
    then have "max 1 (real n) = real n" by simp
    then show ?thesis
      using False that assms(4,5) by (simp add: entry_mk cnt)
  qed
  then show ?thesis
    using S M div by blast
qed

theorem mean_mode_aggregate_witness:
  "\<exists>S M. aggregate_forward (agg ex_layer\<lparr>mean := False\<rparr>) ex_pairs ex_mask0 = Inr S \<and>
         aggregate_forward (agg ex_layer\<lparr>mean := True\<rparr>) ex_pairs ex_mask0 = Inr M \<and>
         1 \<le> entry (neighbor_count 2 ex_mask0) [0, 0, 0] \<and>
         (\<forall>f<2. entry M [0, 0, f] = (if (2::nat) = 0 then 0 else entry S [0, 0, f] / real 2))"
proof -
  have h1: "shape ex_pairs = [1, 3, 2, 2]" and h2: "shape ex_mask0 = [1, 3, 2]"
    and h3: "axis (agg ex_layer) = 2"
    by (simp_all add: ex_pairs_def ex_mask0_def ex_layer_def CFConv_def)
  have h4: "\<forall>k<2. entry ex_mask0 [0, 0, k] = 0 \<or> entry ex_mask0 [0, 0, k] = 1"
    by (simp add: ex_mask0_def entry_def less_Suc_eq numeral_2_eq_2)
  have h5: "(2::nat) = length (filter (\<lambda>k. entry ex_mask0 [0, 0, k] = 1) [0..<2])"
    by (simp add: ex_mask0_def entry_def upt_conv_Cons)
  show ?thesis
    by (rule mean_mode_aggregate [OF h1 h2 h3 _ _ h4 h5]) simp_all
qed

text \<open>Claim C4 (masking law).  When the mask row of atom \<open>i\<close> in batch \<open>b\<close> is zero in every
  neighbour slot, the aggregate of that atom, which is the input of the output projection,
  is the zero vector, in sum mode and in mean mode.\<close>

theorem masked_row_aggregates_to_zero:
  assumes "shape inp = [B, c, K, F]" and "shape msk = [B, c, K]"
    and "axis A = 2"
    and "b < B" "i < c"
    and "\<forall>k<K. entry msk [b, i, k] = 0"
  shows "\<forall>md. \<exists>out. aggregate_forward (A\<lparr>mean := md\<rparr>) inp msk = Inr out \<and>
                    shape out = [B, c, F] \<and> (\<forall>f<F. entry out [b, i, f] = 0)"
proof
  fix md
  let ?A = "A\<lparr>mean := md\<rparr>"
  let ?out = "mk [B, c, F]
                (\<lambda>idx. if mean ?A
                        then agg_sum inp msk K (idx ! 0) (idx ! 1) (idx ! 2)
                             / agg_count msk K (idx ! 0) (idx ! 1)
                        else agg_sum inp msk K (idx ! 0) (idx ! 1) (idx ! 2))"
  have run: "aggregate_forward ?A inp msk = Inr ?out"
    using assms(1,2) by (rule aggregate_forward_eq) (simp add: assms(3))
  have zero: "agg_sum inp msk K b i f = 0" for f
    using assms(6) by (intro agg_sum_masked_zero) simp
  have "entry ?out [b, i, f] = 0" if "f < F" for f
    using that assms(4,5) by (simp add: entry_mk zero)
  then show "\<exists>out. aggregate_forward ?A inp msk = Inr out \<and>
               shape out = [B, c, F] \<and> (\<forall>f<F. entry out [b, i, f] = 0)"
    using run by simp
qed

theorem masked_row_aggregates_to_zero_witness:
  "\<forall>md. \<exists>out. aggregate_forward (agg ex_layer\<lparr>mean := md\<rparr>) ex_pairs ex_mask0 = Inr out \<and>
              shape out = [1, 3, 2] \<and> (\<forall>f<2. entry out [0, 2, f] = 0)"
proof -
  have h1: "shape ex_pairs = [1, 3, 2, 2]" and h2: "shape ex_mask0 = [1, 3, 2]"
    and h3: "axis (agg ex_layer) = 2"
    by (simp_all add: ex_pairs_def ex_mask0_def ex_layer_def CFConv_def)
  have h4: "\<forall>k<2. entry ex_mask0 [0, 2, k] = 0"
    by (simp add: ex_mask0_def entry_def less_Suc_eq numeral_2_eq_2)
  show ?thesis
    by (rule masked_row_aggregates_to_zero [OF h1 h2 h3 _ _ h4]) simp_all
qed

text \<open>Claim C5 (cutoff identity).  Let the distances have shape \<open>(B, N, K)\<close> and the distance
  features, when given, shape \<open>(B, N, K, G)\<close>, and let the filter network, whenever it
  returns on the slice this call passes it, return filters of the shape its contract
  names.  Then a layer whose cutoff network always returns 1 gives the result of the
  same layer without cutoff network, error or tensor alike, on every \<open>x\<close>, neighbour and
  mask tensor and every \<open>cut\<close>.\<close>

theorem cutoff_one_is_none:
  assumes r: "shape r_ij = [B, N, K]"
    and f: "case f_ij of None \<Rightarrow> True | Some f \<Rightarrow> shape f = [B, N, K, G]"
    and fc: "\<forall>cutv fs W. cut_value x cutn = Inr cutv
               \<and> slice_atoms cutv (features r_ij f_ij) = Inr fs
               \<and> filter_network L fs = Inr W
               \<longrightarrow> wf W \<and> shape W = butlast (shape fs) @ [F]"
  shows "forward (L\<lparr>cutoff_network := Some ones_cutoff\<rparr>) x r_ij neighbors pairwise_mask f_ij cutn
       = forward (L\<lparr>cutoff_network := None\<rparr>) x r_ij neighbors pairwise_mask f_ij cutn"
proof (cases "cut_value x cutn")
  case (Inl e)
  then show ?thesis by (simp add: forward_def)
next
  case (Inr cutv)
  obtain G' where G': "shape (features r_ij f_ij) = [B, N, K, G']"
    using r f by (cases f_ij) (simp_all add: unsqueeze_last_def features_def)
  have "filter_weights (L\<lparr>cutoff_network := Some ones_cutoff\<rparr>) r_ij (features r_ij f_ij) cutv
      = filter_weights (L\<lparr>cutoff_network := None\<rparr>) r_ij (features r_ij f_ij) cutv"
    using r G'
  proof (rule filter_weights_ones)
    fix fs W
    assume "slice_atoms cutv (features r_ij f_ij) = Inr fs" "filter_network L fs = Inr W"
    then show "wf W \<and> shape W = butlast (shape fs) @ [F]"
      using fc Inr by blast
  qed
  then show ?thesis
    using Inr by (simp add: forward_def)
qed

theorem cutoff_one_is_none_witness:
  "forward (ex_layer\<lparr>cutoff_network := Some ones_cutoff\<rparr>) ex_x ex_r ex_neighbors ex_mask None None
     = forward (ex_layer\<lparr>cutoff_network := None\<rparr>) ex_x ex_r ex_neighbors ex_mask None None \<and>
   forward (ex_layer\<lparr>cutoff_network := None\<rparr>) ex_x ex_r ex_neighbors ex_mask None None
     = Inr \<lparr>shape = [1, 3, 1], elems = [18, 14, 3]\<rparr>"
proof -
  have r: "shape ex_r = [1, 3, 2]"
    by (simp add: ex_r_def)
  have f: "case (None :: real tensor option) of None \<Rightarrow> True | Some f \<Rightarrow> shape f = [1, 3, 2, 1]"
    by simp
  have fc: "\<forall>cutv fs W. cut_value ex_x None = Inr cutv
               \<and> slice_atoms cutv (features ex_r None) = Inr fs
               \<and> filter_network ex_layer fs = Inr W
               \<longrightarrow> wf W \<and> shape W = butlast (shape fs) @ [2]"
    by (auto simp: ex_layer_def CFConv_def ex_filter_def dense_forward_def split: if_splits)
  have "forward (ex_layer\<lparr>cutoff_network := Some ones_cutoff\<rparr>) ex_x ex_r ex_neighbors
        ex_mask None None
      = forward (ex_layer\<lparr>cutoff_network := None\<rparr>) ex_x ex_r ex_neighbors ex_mask None None"
    using r f fc by (rule cutoff_one_is_none)
  moreover have "forward (ex_layer\<lparr>cutoff_network := None\<rparr>) ex_x ex_r ex_neighbors ex_mask None None
      = Inr \<lparr>shape = [1, 3, 1], elems = [18, 14, 3]\<rparr>"
    by code_simp
  ultimately show ?thesis by simp
qed

text \<open>Claim C6 (neighbour gather).  Let \<open>y\<close> be the projected atom features, of shape
  \<open>(B, N, F)\<close>, and let the neighbour indices of the first \<open>c\<close> atoms be atom indices,
  where \<open>c\<close> is the number of atoms the slice \<open>:cut\<close> keeps.  Then for every batch
  index \<open>b\<close>, atom \<open>i < c\<close> and neighbour slot \<open>k\<close>, lines 67-72 return a tensor \<open>g\<close> of
  shape \<open>(B, c, K, F)\<close> with \<open>g[b, i, k, :] = y[b, neighbors[b, i, k], :]\<close>.\<close>

theorem neighbor_gather_entry:
  assumes "shape y = [B, N, F]" and "shape neighbors = [B, N, K]"
    and "c = py_stop cutv N"
    and "valid_neighbors neighbors B c K N"
    and "b < B" "i < c" "k < K"
  shows "\<exists>g. neighbor_gather y neighbors cutv = Inr g \<and> wf g \<and> shape g = [B, c, K, F] \<and>
             (\<forall>f<F. entry g [b, i, k, f] = entry y [b, nat (entry neighbors [b, i, k]), f])"
proof -
  have pos: "0 < B" "0 < c" "0 < K"
    using assms(5-7) by simp_all
  have "neighbor_gather y neighbors cutv =
          Inr (mk [B, c, K, F]
                 (\<lambda>idx. entry y [idx ! 0, nat (entry neighbors [idx ! 0, idx ! 1, idx ! 2]),
                                  idx ! 3]))"
    using assms(1-3) pos
  proof (rule neighbor_gather_eq)
    fix b i k assume "b < B" "i < c" "k < K"
    then show "0 \<le> entry neighbors [b, i, k] \<and> entry neighbors [b, i, k] < int N"
      using assms(4) by (simp add: valid_neighbors_def)
  qed
  then show ?thesis
    using assms(5-7) by (simp add: entry_mk)
qed

theorem neighbor_gather_entry_witness:
  "\<exists>g. neighbor_gather ex_x ex_neighbors 2 = Inr g \<and> wf g \<and> shape g = [1, 2, 2, 2] \<and>
       (\<forall>f<2. entry g [0, 1, 1, f] = entry ex_x [0, nat (entry ex_neighbors [0, 1, 1]), f])"
proof -
  have h1: "shape ex_x = [1, 3, 2]" and h2: "shape ex_neighbors = [1, 3, 2]"
    by (simp_all add: ex_x_def ex_neighbors_def)
  have h3: "(2::nat) = py_stop 2 3"
    by (simp add: py_stop_def)
  have h4: "valid_neighbors ex_neighbors 1 2 2 3"
    using ex_valid_neighbors by (simp add: valid_neighbors_def)
  show ?thesis
    by (rule neighbor_gather_entry [OF h1 h2 h3 h4]) simp_all
qed




text \<open>A mask with a single neighbour slot is accepted as well: broadcasting repeats it over
  the two slots of the neighbour tensor.\<close>

lemma single_slot_mask_is_accepted:
  "shape ex_neighbors = [1, 3, 2] \<and> shape ex_mask_single = [1, 3, 1] \<and>
   forward ex_layer ex_x ex_r ex_neighbors ex_mask_single None None
     = Inr \<lparr>shape = [1, 3, 1], elems = [18, 14, 10]\<rparr>"
  by code_simp



text \<open>The same error with distances for three neighbour slots instead of two: it is raised
  by the product on line 74.\<close>

lemma wider_distances_are_refused:
  "forward ex_layer ex_x \<lparr>shape = [1, 3, 3], elems = [1, 1, 1, 1, 1, 1, 1, 1, 1]\<rparr>
     ex_neighbors ex_mask None None = Inl DimMismatch"
  by code_simp

text \<open>Claim C9 (a truncation length beyond the atom count).  For a valid layer, valid
  inputs and networks that keep their contract on what they are passed, a \<open>cut\<close> greater
  than \<open>N\<close> is clamped by every slice: the call succeeds, its result has
  \<open>min(cut, N) = N\<close> rows along the atom axis, and it is the result of the call without
  \<open>cut\<close>.\<close>

theorem forward_cut_beyond:
  assumes L: "valid_layer L n_in n_filters n_out"
    and V: "valid_inputs x r_ij neighbors pairwise_mask f_ij B N K n_in"
    and m: "int N < m"
    and nb: "valid_neighbors neighbors B N K N"
    and ok: "networks_ok L n_filters r_ij f_ij m"
  shows "\<exists>out. forward L x r_ij neighbors pairwise_mask f_ij (Some m) = Inr out \<and> wf out \<and>
               shape out = [B, min (nat m) N, n_out] \<and>
               forward L x r_ij neighbors pairwise_mask f_ij None = Inr out"
proof -
  let ?f = "features r_ij f_ij"
  have N: "0 < N" and r: "shape r_ij = [B, N, K]"
    using V by (simp_all add: valid_inputs_def)
  have c1: "N = py_stop m N" and c2: "N = py_stop (int N) N"
    using m by (simp_all add: py_stop_def)
  obtain G where G: "shape ?f = [B, N, K, G]"
    using features_shape [OF V] by blast
  obtain W where W: "filter_weights L r_ij ?f m = Inr W" "wf W" "shape W = [B, N, K, n_filters]"
    using filter_weights_ok [OF ok G r c1] by blast
  have "py_stop (int N) N = py_stop m N"
    using c1 c2 by simp
  with G r have "filter_weights L r_ij ?f (int N) = filter_weights L r_ij ?f m"
    by (rule filter_weights_cong)
  then have W': "filter_weights L r_ij ?f (int N) = Inr W"
    using W(1) by simp
  have "forward L x r_ij neighbors pairwise_mask f_ij (Some m)
      = Inr (conv_out L x neighbors pairwise_mask W B N K)"
    using L V _ _ c1 N nb W
  proof (rule forward_eq)
    show "m = resolve_cut (Some m) N" by (simp add: resolve_cut_def)
    show "0 \<le> m" using m by simp
  qed
  moreover have "forward L x r_ij neighbors pairwise_mask f_ij None
      = Inr (conv_out L x neighbors pairwise_mask W B N K)"
    using L V _ _ c2 N nb W' W(2,3)
  proof (rule forward_eq)
    show "int N = resolve_cut None N" by (simp add: resolve_cut_def)
    show "0 \<le> int N" by simp
  qed
  moreover have "out_features (f2out L) = n_out"
    using L by (simp add: valid_layer_def)
  moreover have "min (nat m) N = N"
    using m by simp
  ultimately show ?thesis by simp
qed

theorem forward_cut_beyond_witness:
  "\<exists>out. forward ex_layer ex_x ex_r ex_neighbors ex_mask None (Some 7) = Inr out \<and> wf out \<and>
         shape out = [1, min (nat 7) 3, 1] \<and>
         forward ex_layer ex_x ex_r ex_neighbors ex_mask None None = Inr out"
proof -
  have "int 3 < 7" by simp
  then show ?thesis
    using ex_valid_neighbors ex_networks_ok
    by (rule forward_cut_beyond [OF ex_valid_layer ex_valid_inputs])
qed

text \<open>Claim C10 (projection before truncation).  For a valid layer, valid inputs and a
  \<open>cut\<close> between 1 and \<open>N\<close>, the neighbour indices of the first \<open>cut\<close> atoms need only be
  atom indices below \<open>N\<close>, not below \<open>cut\<close>: \<open>forward\<close> succeeds, and the aggregate of atom
  \<open>i\<close> from which its result is projected sums, over the neighbour slots \<open>k\<close>, the input
  projection of the features of atom \<open>neighbors[b, i, k]\<close>, read from the untruncated
  \<open>x\<close>, times filter and mask.\<close>

theorem projection_before_truncation:
  assumes L: "valid_layer L n_in n_filters n_out"
    and V: "valid_inputs x r_ij neighbors pairwise_mask f_ij B N K n_in"
    and cut: "1 \<le> cutv" "cutv \<le> int N"
    and ok: "networks_ok L n_filters r_ij f_ij cutv"
    and nb: "valid_neighbors neighbors B (nat cutv) K N"
  shows "\<exists>W. filter_weights L r_ij (features r_ij f_ij) cutv = Inr W \<and>
             forward L x r_ij neighbors pairwise_mask f_ij (Some cutv)
               = Inr (conv_out L x neighbors pairwise_mask W B (nat cutv) K) \<and>
             (\<forall>b i f. conv_agg L x neighbors pairwise_mask W K b i f
                = (let s = sum_list (map (\<lambda>k.
                             dense_entry (in2f L) x [b, nat (entry neighbors [b, i, k])] f
                               * entry W [b, i, k, f] * entry pairwise_mask [b, i, k]) [0..<K])
                   in if mean (agg L) then s / agg_count pairwise_mask K b i else s))"
proof -
  define c where "c = nat cutv"
  have c': "c = py_stop cutv N" and pos: "0 < c" and nonneg: "0 \<le> cutv"
    using cut by (simp_all add: c_def py_stop_def)
  have r: "shape r_ij = [B, N, K]"
    using V by (simp add: valid_inputs_def)
  obtain G where G: "shape (features r_ij f_ij) = [B, N, K, G]"
    using features_shape [OF V] by blast
  obtain W where W: "filter_weights L r_ij (features r_ij f_ij) cutv = Inr W"
      "wf W" "shape W = [B, c, K, n_filters]"
    using filter_weights_ok [OF ok G r c'] by blast
  have "forward L x r_ij neighbors pairwise_mask f_ij (Some cutv)
      = Inr (conv_out L x neighbors pairwise_mask W B c K)"
    using L V _ nonneg c' pos nb [folded c_def] W
    by (rule forward_eq) (simp add: resolve_cut_def)
  then show ?thesis
    using W(1) by (auto simp: c_def conv_agg_def projected_def)
qed

theorem projection_before_truncation_witness:
  "(\<exists>W. filter_weights ex_layer ex_r (features ex_r None) 1 = Inr W \<and>
        forward ex_layer ex_x ex_r ex_neighbors ex_mask None (Some 1)
          = Inr (conv_out ex_layer ex_x ex_neighbors ex_mask W 1 (nat 1) 2) \<and>
        (\<forall>b i f. conv_agg ex_layer ex_x ex_neighbors ex_mask W 2 b i f
           = (let s = sum_list (map (\<lambda>k.
                        dense_entry (in2f ex_layer) ex_x [b, nat (entry ex_neighbors [b, i, k])] f
                          * entry W [b, i, k, f] * entry ex_mask [b, i, k]) [0..<2])
              in if mean (agg ex_layer) then s / agg_count ex_mask 2 b i else s))) \<and>
   entry ex_neighbors [0, 0, 1] = 2 \<and>
   forward ex_layer ex_x ex_r ex_neighbors ex_mask None (Some 1)
     = Inr \<lparr>shape = [1, 1, 1], elems = [18]\<rparr> \<and>
   forward ex_layer ex_x_changed ex_r ex_neighbors ex_mask None (Some 1)
     = Inr \<lparr>shape = [1, 1, 1], elems = [7]\<rparr>"
proof -
  have cut: "(1::int) \<le> 1" "(1::int) \<le> int 3"
    by simp_all
  have nb: "valid_neighbors ex_neighbors 1 (nat 1) 2 3"
    using ex_valid_neighbors by (simp add: valid_neighbors_def)
  have "entry ex_neighbors [0, 0, 1] = 2"
    by (simp add: ex_neighbors_def entry_def)
  moreover have "forward ex_layer ex_x ex_r ex_neighbors ex_mask None (Some 1)
       = Inr \<lparr>shape = [1, 1, 1], elems = [18]\<rparr> \<and>
     forward ex_layer ex_x_changed ex_r ex_neighbors ex_mask None (Some 1)
       = Inr \<lparr>shape = [1, 1, 1], elems = [7]\<rparr>"
    by code_simp
  ultimately show ?thesis
    using projection_before_truncation [OF ex_valid_layer ex_valid_inputs cut ex_networks_ok nb]
    by blast
qed

end
